theory Spec2Isabelle
  imports Complex_Main "HOL-Library.Word" "HOL-Library.Signed_Division" "HOL-Library.Multiset"
begin

section \<open>Data model of the monitor (study/Aicode test/AItest.cpp)\<close>

text \<open>
  The C++ types are embedded as follows. \<open>uint64_t\<close> and \<open>uint32_t\<close> are \<open>64 word\<close> and
  \<open>32 word\<close>, so that unsigned subtraction wraps around as it does in the source.
  A \<open>std::chrono::system_clock::time_point\<close> is the integer count of clock ticks since the
  epoch. The number of ticks in one millisecond is fixed by the standard library and not by
  this repository, so every function that converts a duration takes it as the parameter
  \<open>tpm\<close> (1000000 for a nanosecond clock, as on Linux with libstdc++).
  A \<open>double\<close> is a real number: rounding, infinities and NaN are not modelled.
  A floating-point division by zero does not trap in C++, it yields an infinity or NaN;
  here it is the value \<open>Inl Division_By_Zero\<close>, so that reaching a division with a zero
  divisor is visible in the result.
\<close>

type_synonym u64 = "64 word"
type_synonym u32 = "32 word"
type_synonym time_point = int

datatype fault = Division_By_Zero

definition checked_div :: "real \<Rightarrow> real \<Rightarrow> fault + real" where
  "checked_div x d = (if d = 0 then Inl Division_By_Zero else Inr (x / d))"

text \<open>\<open>duration_cast<milliseconds>(d).count()\<close>: integer division truncating towards zero.\<close>

definition duration_cast_ms :: "int \<Rightarrow> int \<Rightarrow> int" where
  "duration_cast_ms tpm d = d sdiv tpm"

record ProcessInfo =
  pid :: u32
  name :: string
  cpu_percent :: real
  memory_percent :: real
  memory_bytes :: u64
  io_read_bytes :: u64
  io_write_bytes :: u64
  status :: string
  create_time :: time_point

text \<open>The constructor \<open>ProcessInfo(p, n)\<close>.\<close>

definition ProcessInfo_init :: "u32 \<Rightarrow> string \<Rightarrow> ProcessInfo" where
  "ProcessInfo_init p n =
     \<lparr>pid = p, name = n, cpu_percent = 0, memory_percent = 0, memory_bytes = 0,
      io_read_bytes = 0, io_write_bytes = 0, status = [], create_time = 0\<rparr>"

record SystemStats =
  timestamp :: time_point
  cpu_percent :: real
  memory_percent :: real
  memory_used_bytes :: u64
  memory_total_bytes :: u64
  disk_io_read_rate :: real
  disk_io_write_rate :: real
  process_count :: u32

text \<open>The constructor \<open>SystemStats()\<close>: every number is zero, the timestamp is the clock.\<close>

definition SystemStats_init :: "time_point \<Rightarrow> SystemStats" where
  "SystemStats_init now =
     \<lparr>timestamp = now, cpu_percent = 0, memory_percent = 0, memory_used_bytes = 0,
      memory_total_bytes = 0, disk_io_read_rate = 0, disk_io_write_rate = 0,
      process_count = 0\<rparr>"

record IOCounters =
  read_bytes :: u64
  write_bytes :: u64
  timestamp :: time_point

record CPUTimes =
  user :: u64
  nice :: u64
  system :: u64
  idle :: u64
  iowait :: u64
  irq :: u64
  softirq :: u64
  steal :: u64

record SystemInfoCollector =
  prev_io_counters :: IOCounters
  first_io_read :: bool
  prev_cpu_times :: CPUTimes
  first_cpu_read :: bool

section \<open>SystemInfoCollector: counters to rates\<close>

text \<open>
  \<open>getIOStats\<close>. The clock reading \<open>now\<close> and the two cumulative byte counts that the
  platform code has summed from /proc/diskstats are inputs. The result is the pair of
  rates written through the reference parameters and the collector after the call.
\<close>

definition getIOStats ::
  "int \<Rightarrow> time_point \<Rightarrow> u64 \<Rightarrow> u64 \<Rightarrow> SystemInfoCollector
     \<Rightarrow> fault + (real \<times> real \<times> SystemInfoCollector)" where
  "getIOStats tpm now cur_read cur_write c =
     (let current_io = \<lparr>read_bytes = cur_read, write_bytes = cur_write,
                         IOCounters.timestamp = now\<rparr>;
          prev = prev_io_counters c
      in if \<not> first_io_read c then
           (let duration = duration_cast_ms tpm (now - IOCounters.timestamp prev)
            in if duration > 0 then
                 (case checked_div (real (unat (cur_read - read_bytes prev)) * 1000)
                         (real_of_int duration) of
                    Inl e \<Rightarrow> Inl e
                  | Inr read_rate \<Rightarrow>
                      (case checked_div (real (unat (cur_write - write_bytes prev)) * 1000)
                              (real_of_int duration) of
                         Inl e \<Rightarrow> Inl e
                       | Inr write_rate \<Rightarrow>
                           Inr (read_rate, write_rate, c\<lparr>prev_io_counters := current_io\<rparr>)))
               else Inr (0, 0, c\<lparr>prev_io_counters := current_io\<rparr>))
         else Inr (0, 0, c\<lparr>first_io_read := False, prev_io_counters := current_io\<rparr>))"

text \<open>
  \<open>getCPUUsageLinux\<close>. The argument is what \<open>readCPUTimes\<close> delivered: \<open>None\<close> when
  /proc/stat could not be opened.
\<close>

definition getCPUUsageLinux ::
  "CPUTimes option \<Rightarrow> SystemInfoCollector \<Rightarrow> fault + (real \<times> SystemInfoCollector)" where
  "getCPUUsageLinux rd c =
     (case rd of
        None \<Rightarrow> Inr (0, c)
      | Some current_times \<Rightarrow>
          if first_cpu_read c then
            Inr (0, c\<lparr>prev_cpu_times := current_times, first_cpu_read := False\<rparr>)
          else
            (let p = prev_cpu_times c;
                 prev_idle = idle p + iowait p;
                 idle' = idle current_times + iowait current_times;
                 prev_non_idle = user p + nice p + system p + irq p + softirq p + steal p;
                 non_idle = user current_times + nice current_times + system current_times
                            + irq current_times + softirq current_times + steal current_times;
                 prev_total = prev_idle + prev_non_idle;
                 total = idle' + non_idle;
                 total_diff = total - prev_total;
                 idle_diff = idle' - prev_idle;
                 c' = c\<lparr>prev_cpu_times := current_times\<rparr>
             in if total_diff = 0 then Inr (0, c')
                else (case checked_div (real (unat (total_diff - idle_diff)))
                             (real (unat total_diff)) of
                        Inl e \<Rightarrow> Inl e
                      | Inr q \<Rightarrow> Inr (q * 100, c'))))"

text \<open>
  One call of the platform probe reads the clock, /proc/stat, the memory totals, the disk
  counters and the process table. \<open>Platform_Reading\<close> collects what these reads returned.
\<close>

record Platform_Reading =
  clock_stats :: time_point
  clock_io :: time_point
  cpu_times :: "CPUTimes option"
  mem_used :: u64
  mem_total :: u64
  disk_read :: u64
  disk_write :: u64
  proc_table :: "ProcessInfo list"

definition getSystemStats ::
  "int \<Rightarrow> Platform_Reading \<Rightarrow> SystemInfoCollector
     \<Rightarrow> fault + (SystemStats \<times> SystemInfoCollector)" where
  "getSystemStats tpm rd c =
     (let stats0 = SystemStats_init (clock_stats rd)
      in case getCPUUsageLinux (cpu_times rd) c of
           Inl e \<Rightarrow> Inl e
         | Inr (cpu, c1) \<Rightarrow>
             (let stats1 = stats0\<lparr>SystemStats.cpu_percent := cpu,
                                  memory_used_bytes := mem_used rd,
                                  memory_total_bytes := mem_total rd\<rparr>
              in case (if memory_total_bytes stats1 > 0 then
                         (case checked_div (real (unat (memory_used_bytes stats1)))
                                 (real (unat (memory_total_bytes stats1))) of
                            Inl e \<Rightarrow> Inl e
                          | Inr q \<Rightarrow> Inr (stats1\<lparr>SystemStats.memory_percent := q * 100\<rparr>))
                       else Inr stats1) of
                   Inl e \<Rightarrow> Inl e
                 | Inr stats2 \<Rightarrow>
                     (case getIOStats tpm (clock_io rd) (disk_read rd) (disk_write rd) c1 of
                        Inl e \<Rightarrow> Inl e
                      | Inr (rr, wr, c2) \<Rightarrow>
                          Inr (stats2\<lparr>disk_io_read_rate := rr, disk_io_write_rate := wr,
                                      process_count := of_nat (length (proc_table rd))\<rparr>,
                               c2))))"

text \<open>Repeated calls of \<open>getIOStats\<close>, one per reading, collecting the emitted rates.\<close>

fun getIOStats_calls ::
  "int \<Rightarrow> (time_point \<times> u64 \<times> u64) list \<Rightarrow> SystemInfoCollector
     \<Rightarrow> fault + ((real \<times> real) list \<times> SystemInfoCollector)" where
  "getIOStats_calls tpm [] c = Inr ([], c)"
| "getIOStats_calls tpm ((now, r, w) # rest) c =
     (case getIOStats tpm now r w c of
        Inl e \<Rightarrow> Inl e
      | Inr (rr, wr, c') \<Rightarrow>
          (case getIOStats_calls tpm rest c' of
             Inl e \<Rightarrow> Inl e
           | Inr (rates, c'') \<Rightarrow> Inr ((rr, wr) # rates, c'')))"

text \<open>
  The totals that \<open>getCPUUsageLinux\<close> forms from one reading of /proc/stat
  (its locals \<open>idle\<close> and \<open>total\<close>), named for use in statements.
\<close>

definition cpu_idle :: "CPUTimes \<Rightarrow> u64" where
  "cpu_idle t = idle t + iowait t"

definition cpu_total :: "CPUTimes \<Rightarrow> u64" where
  "cpu_total t = (idle t + iowait t) + (user t + nice t + system t + irq t + softirq t + steal t)"

text \<open>A collector as the constructor leaves it: no baseline for either counter stream.\<close>

definition collector0 :: SystemInfoCollector where
  "collector0 =
     \<lparr>prev_io_counters = \<lparr>read_bytes = 0, write_bytes = 0, IOCounters.timestamp = 0\<rparr>,
      first_io_read = True,
      prev_cpu_times = \<lparr>user = 0, nice = 0, system = 0, idle = 0, iowait = 0, irq = 0,
                        softirq = 0, steal = 0\<rparr>,
      first_cpu_read = True\<rparr>"

section \<open>AlertSystem\<close>

text \<open>
  \<open>std::chrono::system_clock::now()\<close> is an external clock that the alert code reads a
  varying number of times per call. It is a stream of readings and the number of reads
  made so far; nothing is assumed about the readings (the system clock may be set back).
\<close>

record Clock =
  ticks :: "nat \<Rightarrow> time_point"
  reads :: nat

definition system_clock_now :: "Clock \<Rightarrow> time_point \<times> Clock" where
  "system_clock_now clk = (ticks clk (reads clk), clk\<lparr>reads := Suc (reads clk)\<rparr>)"

record AlertThresholds =
  cpu_threshold :: real
  memory_threshold :: real
  io_threshold :: real
  cooldown_period :: int

definition default_thresholds :: AlertThresholds where
  "default_thresholds =
     \<lparr>cpu_threshold = 80, memory_threshold = 85, io_threshold = 100, cooldown_period = 60\<rparr>"

datatype Alert_Type = CPU | MEMORY | IO | PROCESS

record Alert =
  message :: string
  timestamp :: time_point
  type :: Alert_Type

text \<open>
  The alert callback is user code. The model keeps whether one is registered and the list
  of alerts it has been invoked with, in order (\<open>delivered\<close>).
\<close>

record AlertSystem =
  thresholds :: AlertThresholds
  last_alerts :: "string \<rightharpoonup> time_point"
  alert_callback :: bool
  delivered :: "Alert list"

definition AlertSystem_init :: AlertSystem where
  "AlertSystem_init =
     \<lparr>thresholds = default_thresholds, last_alerts = Map.empty, alert_callback = False,
      delivered = []\<rparr>"

text \<open>
  The clock and \<open>std::chrono::seconds\<close> count in signed 64-bit integers. \<open>int64 x\<close> is
  the value that a 64-bit two's complement computation leaves for the exact result
  \<open>x\<close>; it is \<open>x\<close> itself when \<open>x\<close> fits.
\<close>

definition int64 :: "int \<Rightarrow> int" where
  "int64 x = (x + 2 ^ 63) mod 2 ^ 64 - 2 ^ 63"

definition fits_int64 :: "int \<Rightarrow> bool" where
  "fits_int64 x = (- (2 ^ 63) \<le> x \<and> x < 2 ^ 63)"

text \<open>
  \<open>shouldAlert\<close>. The clock reading that its first statement takes is the argument
  \<open>now\<close>. The comparison \<open>(now - it->second) >= cooldown_period\<close> is made in clock
  ticks: the left side is a 64-bit difference of tick counts, and the cooldown, a count of
  seconds, is multiplied by the ticks of a second (\<open>1000 * tpm\<close>) in 64 bits.
\<close>

definition shouldAlert :: "int \<Rightarrow> string \<Rightarrow> time_point \<Rightarrow> AlertSystem \<Rightarrow> bool \<times> AlertSystem" where
  "shouldAlert tpm alert_key now a =
     (if (case last_alerts a alert_key of
            None \<Rightarrow> True
          | Some t \<Rightarrow> int64 (now - t) \<ge> int64 (cooldown_period (thresholds a) * (1000 * tpm)))
      then (True, a\<lparr>last_alerts := (last_alerts a)(alert_key \<mapsto> now)\<rparr>)
      else (False, a))"

text \<open>\<open>std::to_string\<close> of an unsigned integer: its decimal digits.\<close>

definition digit_char :: "nat \<Rightarrow> char" where
  "digit_char d = char_of (48 + d)"

fun to_string :: "nat \<Rightarrow> string" where
  "to_string n = (if n < 10 then [digit_char n] else to_string (n div 10) @ [digit_char (n mod 10)])"

declare to_string.simps [simp del]

definition digit_val :: "char \<Rightarrow> nat" where
  "digit_val ch = of_char ch - 48"

definition digits_val :: "string \<Rightarrow> nat" where
  "digits_val s = foldl (\<lambda>acc ch. 10 * acc + digit_val ch) 0 s"

definition process_key :: "u32 \<Rightarrow> string" where
  "process_key p = ''process_'' @ to_string (unat p)"

text \<open>
  The block that every firing branch of \<open>checkAlerts\<close> repeats: build the alert with the
  clock as timestamp, append it to the result, hand it to the callback if there is one.
\<close>

definition emit_alert ::
  "Alert_Type \<Rightarrow> string \<Rightarrow> Alert list \<Rightarrow> AlertSystem \<times> Clock
     \<Rightarrow> Alert list \<times> AlertSystem \<times> Clock" where
  "emit_alert ty msg alerts s =
     (case s of (a, clk) \<Rightarrow>
        (case system_clock_now clk of (t, clk') \<Rightarrow>
           (let alert = \<lparr>message = msg, Alert.timestamp = t, type = ty\<rparr>
            in (alerts @ [alert],
                (if alert_callback a then a\<lparr>delivered := delivered a @ [alert]\<rparr> else a),
                clk'))))"

text \<open>
  A threshold branch: the guard on the metric, then \<open>shouldAlert\<close> (which reads the
  clock), then the firing block.
\<close>

definition check_key ::
  "int \<Rightarrow> bool \<Rightarrow> string \<Rightarrow> Alert_Type \<Rightarrow> string \<Rightarrow> Alert list \<Rightarrow> AlertSystem \<times> Clock
     \<Rightarrow> Alert list \<times> AlertSystem \<times> Clock" where
  "check_key tpm exceeded alert_key ty msg alerts s =
     (if exceeded then
        (case s of (a, clk) \<Rightarrow>
           (case system_clock_now clk of (now, clk') \<Rightarrow>
              (case shouldAlert tpm alert_key now a of
                 (True, a') \<Rightarrow> emit_alert ty msg alerts (a', clk')
               | (False, a') \<Rightarrow> (alerts, a', clk'))))
      else (case s of (a, clk) \<Rightarrow> (alerts, a, clk)))"

definition process_message :: "(real \<Rightarrow> string) \<Rightarrow> ProcessInfo \<Rightarrow> string" where
  "process_message dstr proc =
     ''Process '' @ name proc @ '' (PID '' @ to_string (unat (pid proc)) @ '') using ''
     @ dstr (ProcessInfo.cpu_percent proc) @ ''% CPU''"

text \<open>
  The loop over the processes. \<open>dstr\<close> is \<open>std::to_string\<close> on a \<open>double\<close>, which only
  formats the message.
\<close>

fun check_processes ::
  "int \<Rightarrow> (real \<Rightarrow> string) \<Rightarrow> ProcessInfo list \<Rightarrow> Alert list \<Rightarrow> AlertSystem \<times> Clock
     \<Rightarrow> Alert list \<times> AlertSystem \<times> Clock" where
  "check_processes tpm dstr [] alerts s = (case s of (a, clk) \<Rightarrow> (alerts, a, clk))"
| "check_processes tpm dstr (proc # rest) alerts s =
     (case check_key tpm (ProcessInfo.cpu_percent proc > 50) (process_key (pid proc)) PROCESS
             (process_message dstr proc) alerts s of
        (alerts', a', clk') \<Rightarrow> check_processes tpm dstr rest alerts' (a', clk'))"

definition checkAlerts ::
  "int \<Rightarrow> (real \<Rightarrow> string) \<Rightarrow> SystemStats \<Rightarrow> ProcessInfo list \<Rightarrow> AlertSystem \<times> Clock
     \<Rightarrow> Alert list \<times> AlertSystem \<times> Clock" where
  "checkAlerts tpm dstr stats processes s =
     (case check_key tpm (SystemStats.cpu_percent stats > cpu_threshold (thresholds (fst s)))
             ''cpu'' CPU
             (''High CPU usage: '' @ dstr (SystemStats.cpu_percent stats) @ ''%'') [] s of
        (alerts1, a1, clk1) \<Rightarrow>
          (case check_key tpm
                  (SystemStats.memory_percent stats > memory_threshold (thresholds a1))
                  ''memory'' MEMORY
                  (''High memory usage: '' @ dstr (SystemStats.memory_percent stats) @ ''%'')
                  alerts1 (a1, clk1) of
             (alerts2, a2, clk2) \<Rightarrow>
               (let total_io = (disk_io_read_rate stats + disk_io_write_rate stats)
                               / (1024 * 1024)
                in case check_key tpm (total_io > io_threshold (thresholds a2)) ''io'' IO
                          (''High I/O activity: '' @ dstr total_io @ '' MB/s'')
                          alerts2 (a2, clk2) of
                     (alerts3, a3, clk3) \<Rightarrow>
                       check_processes tpm dstr processes alerts3 (a3, clk3))))"

text \<open>
  A key is out of cooldown for a call of \<open>checkAlerts\<close> when it has no entry, or when
  every reading that the clock has yet to give (from read number \<open>reads clk\<close> on) is at
  least the cooldown after its entry, the cooldown in ticks and these differences fitting
  64 bits.
\<close>

definition cooled_down :: "int \<Rightarrow> AlertSystem \<Rightarrow> Clock \<Rightarrow> string \<Rightarrow> bool" where
  "cooled_down tpm a clk alert_key =
     (case last_alerts a alert_key of
        None \<Rightarrow> True
      | Some t \<Rightarrow>
          fits_int64 (cooldown_period (thresholds a) * (1000 * tpm)) \<and>
          (\<forall>n \<ge> reads clk.
             fits_int64 (ticks clk n - t) \<and>
             ticks clk n - t \<ge> cooldown_period (thresholds a) * (1000 * tpm)))"

text \<open>
  For concrete runs: a clock that shows the same time at every read, and a number format
  that prints nothing.
\<close>

definition frozen_clock :: "time_point \<Rightarrow> Clock" where
  "frozen_clock t = \<lparr>ticks = (\<lambda>n. t), reads = 0\<rparr>"

text \<open>A clock that shows \<open>t1\<close> for its first \<open>k\<close> reads and \<open>t2\<close> from then on.\<close>

definition stepping_clock :: "nat \<Rightarrow> time_point \<Rightarrow> time_point \<Rightarrow> Clock" where
  "stepping_clock k t1 t2 = \<lparr>ticks = (\<lambda>n. if n < k then t1 else t2), reads = 0\<rparr>"

definition no_digits :: "real \<Rightarrow> string" where
  "no_digits x = []"

text \<open>A process record as the probe builds it, with a CPU share filled in.\<close>

definition busy_process :: "u32 \<Rightarrow> string \<Rightarrow> real \<Rightarrow> ProcessInfo" where
  "busy_process p n c = (ProcessInfo_init p n)\<lparr>ProcessInfo.cpu_percent := c\<rparr>"

section \<open>The library's sort\<close>

text \<open>
  \<open>collectionLoop\<close> sorts with \<open>std::sort\<close>, which is code of the C++ library and not of
  this repository. The functions below follow the algorithm of the GNU library
  (\<open>bits/stl_algo.h\<close> and \<open>bits/stl_heap.h\<close>), which the Linux build of the monitor links:
  introsort down to ranges of 16 elements, with a heap sort when the recursion gets too
  deep, then one pass of insertion sort. A range \<open>[first, last)\<close> of iterators is a list
  with two indices (\<open>lst\<close> for \<open>last\<close>). Three things are written differently from the
  library, none of which changes the resulting array: a swap with an index outside the
  list leaves the list alone (the library never makes one); the scanning loops that the
  library runs without a bound check stop at the ends of the list; and where the library
  carries a value beside a hole in the array, the value is kept in the hole.
\<close>

definition iter_swap :: "'a list \<Rightarrow> nat \<Rightarrow> nat \<Rightarrow> 'a list" where
  "iter_swap xs i j =
     (if i < length xs \<and> j < length xs then xs[i := xs ! j, j := xs ! i] else xs)"

definition move_median_to_first ::
  "('a \<Rightarrow> 'a \<Rightarrow> bool) \<Rightarrow> 'a list \<Rightarrow> nat \<Rightarrow> nat \<Rightarrow> nat \<Rightarrow> nat \<Rightarrow> 'a list" where
  "move_median_to_first cmp xs result a b c =
     (if cmp (xs ! a) (xs ! b) then
        (if cmp (xs ! b) (xs ! c) then iter_swap xs result b
         else if cmp (xs ! a) (xs ! c) then iter_swap xs result c
         else iter_swap xs result a)
      else if cmp (xs ! a) (xs ! c) then iter_swap xs result a
      else if cmp (xs ! b) (xs ! c) then iter_swap xs result c
      else iter_swap xs result b)"

text \<open>
  The two inner loops of \<open>__unguarded_partition\<close>: \<open>while (comp(first, pivot)) ++first\<close>
  and \<open>while (comp(pivot, last)) --last\<close>.
\<close>

function scan_up :: "('a \<Rightarrow> 'a \<Rightarrow> bool) \<Rightarrow> 'a list \<Rightarrow> nat \<Rightarrow> nat \<Rightarrow> nat" where
  "scan_up cmp xs pivot i =
     (if i < length xs \<and> cmp (xs ! i) (xs ! pivot) then scan_up cmp xs pivot (Suc i) else i)"
  by pat_completeness auto
termination
  by (relation "measure (\<lambda>(cmp, xs, pivot, i). length xs - i)") auto

declare scan_up.simps [simp del]

fun scan_down :: "('a \<Rightarrow> 'a \<Rightarrow> bool) \<Rightarrow> 'a list \<Rightarrow> nat \<Rightarrow> nat \<Rightarrow> nat" where
  "scan_down cmp xs pivot 0 = 0"
| "scan_down cmp xs pivot (Suc j) =
     (if cmp (xs ! pivot) (xs ! Suc j) then scan_down cmp xs pivot j else Suc j)"

text \<open>
  \<open>__unguarded_partition\<close>: returns the cut and the array. Each round scans up, steps
  \<open>last\<close> down by one and scans down, and swaps unless the two have met.
\<close>

function unguarded_partition ::
  "('a \<Rightarrow> 'a \<Rightarrow> bool) \<Rightarrow> 'a list \<Rightarrow> nat \<Rightarrow> nat \<Rightarrow> nat \<Rightarrow> nat \<times> 'a list" where
  "unguarded_partition cmp xs first lst pivot =
     (let f = scan_up cmp xs pivot first;
          l = scan_down cmp xs pivot (lst - 1)
      in if \<not> f < l then (f, xs)
         else unguarded_partition cmp (iter_swap xs f l) (Suc f) l pivot)"
  by pat_completeness auto
termination
proof (relation "measure (\<lambda>(cmp, xs, first, lst, pivot). lst - first)")
  show "wf (measure (\<lambda>(cmp, xs, first, lst, pivot). lst - first))" by simp
next
  fix cmp :: "'a \<Rightarrow> 'a \<Rightarrow> bool" and xs :: "'a list" and first lst pivot f l
  assume f: "f = scan_up cmp xs pivot first" and l: "l = scan_down cmp xs pivot (lst - 1)"
    and c: "\<not> \<not> f < l"
  have up: "i \<le> scan_up cmp xs pivot i" for i
  proof (induction cmp xs pivot i rule: scan_up.induct)
    case (1 cmp xs pivot i)
    then show ?case
      by (subst scan_up.simps) (auto simp add: Suc_leD)
  qed
  have down: "scan_down cmp xs pivot j \<le> j" for j
    by (induction j) (auto simp add: le_SucI)
  have "first \<le> f" by (simp add: f up)
  moreover have "l \<le> lst - 1" by (simp add: l down)
  ultimately show "((cmp, iter_swap xs f l, Suc f, l, pivot), (cmp, xs, first, lst, pivot))
                     \<in> measure (\<lambda>(cmp, xs, first, lst, pivot). lst - first)"
    using c by simp
qed

declare unguarded_partition.simps [simp del]

definition unguarded_partition_pivot ::
  "('a \<Rightarrow> 'a \<Rightarrow> bool) \<Rightarrow> 'a list \<Rightarrow> nat \<Rightarrow> nat \<Rightarrow> nat \<times> 'a list" where
  "unguarded_partition_pivot cmp xs first lst =
     (let mid = first + (lst - first) div 2
      in unguarded_partition cmp
           (move_median_to_first cmp xs first (first + 1) mid (lst - 1))
           (first + 1) lst first)"

text \<open>
  The heap sort of \<open>__partial_sort(first, last, last)\<close>. \<open>sift_hole\<close> is the first loop of
  \<open>__adjust_heap\<close>, which moves the hole down along the larger children; \<open>push_heap\<close> is
  \<open>__push_heap\<close>, which moves it up again while the parent compares before the value.
\<close>

function sift_hole ::
  "('a \<Rightarrow> 'a \<Rightarrow> bool) \<Rightarrow> 'a list \<Rightarrow> nat \<Rightarrow> nat \<Rightarrow> 'a list \<times> nat" where
  "sift_hole cmp xs hole len =
     (if hole < (len - 1) div 2 then
        (let second_child = 2 * (hole + 1);
             child = (if cmp (xs ! second_child) (xs ! (second_child - 1))
                      then second_child - 1 else second_child)
         in sift_hole cmp (iter_swap xs hole child) child len)
      else (xs, hole))"
  by pat_completeness auto
termination
  by (relation "measure (\<lambda>(cmp, xs, hole, len). len - hole)") auto

declare sift_hole.simps [simp del]

function push_heap :: "('a \<Rightarrow> 'a \<Rightarrow> bool) \<Rightarrow> 'a list \<Rightarrow> nat \<Rightarrow> nat \<Rightarrow> 'a list" where
  "push_heap cmp xs hole top_index =
     (if hole > top_index \<and> cmp (xs ! ((hole - 1) div 2)) (xs ! hole)
      then push_heap cmp (iter_swap xs hole ((hole - 1) div 2)) ((hole - 1) div 2) top_index
      else xs)"
  by pat_completeness auto
termination
  by (relation "measure (\<lambda>(cmp, xs, hole, top_index). hole)") auto

declare push_heap.simps [simp del]

definition adjust_heap :: "('a \<Rightarrow> 'a \<Rightarrow> bool) \<Rightarrow> 'a list \<Rightarrow> nat \<Rightarrow> nat \<Rightarrow> 'a list" where
  "adjust_heap cmp xs hole len =
     (case sift_hole cmp xs hole len of
        (xs1, h1) \<Rightarrow>
          if even len \<and> h1 = (len - 2) div 2
          then push_heap cmp (iter_swap xs1 h1 (2 * (h1 + 1) - 1)) (2 * (h1 + 1) - 1) hole
          else push_heap cmp xs1 h1 hole)"

fun make_heap_from :: "('a \<Rightarrow> 'a \<Rightarrow> bool) \<Rightarrow> 'a list \<Rightarrow> nat \<Rightarrow> 'a list" where
  "make_heap_from cmp xs 0 = adjust_heap cmp xs 0 (length xs)"
| "make_heap_from cmp xs (Suc parent) =
     make_heap_from cmp (adjust_heap cmp xs (Suc parent) (length xs)) parent"

definition make_heap :: "('a \<Rightarrow> 'a \<Rightarrow> bool) \<Rightarrow> 'a list \<Rightarrow> 'a list" where
  "make_heap cmp xs =
     (if length xs < 2 then xs else make_heap_from cmp xs ((length xs - 2) div 2))"

fun sort_heap :: "('a \<Rightarrow> 'a \<Rightarrow> bool) \<Rightarrow> 'a list \<Rightarrow> nat \<Rightarrow> 'a list" where
  "sort_heap cmp xs 0 = xs"
| "sort_heap cmp xs (Suc lst) =
     (if Suc lst > 1 then sort_heap cmp (adjust_heap cmp (iter_swap xs 0 lst) 0 lst) lst
      else xs)"

definition partial_sort_all :: "('a \<Rightarrow> 'a \<Rightarrow> bool) \<Rightarrow> 'a list \<Rightarrow> nat \<Rightarrow> nat \<Rightarrow> 'a list" where
  "partial_sort_all cmp xs first lst =
     take first xs
     @ (let sub = take (lst - first) (drop first xs)
        in sort_heap cmp (make_heap cmp sub) (length sub))
     @ drop lst xs"

text \<open>
  \<open>__introsort_loop\<close>. Its \<open>while\<close> loop partitions, recurses into the upper part and
  goes on with the lower part, all with the depth limit lowered by one.
\<close>

fun introsort_loop ::
  "('a \<Rightarrow> 'a \<Rightarrow> bool) \<Rightarrow> 'a list \<Rightarrow> nat \<Rightarrow> nat \<Rightarrow> nat \<Rightarrow> 'a list" where
  "introsort_loop cmp xs first lst 0 =
     (if lst - first > 16 then partial_sort_all cmp xs first lst else xs)"
| "introsort_loop cmp xs first lst (Suc depth_limit) =
     (if lst - first > 16 then
        (case unguarded_partition_pivot cmp xs first lst of
           (cut_at, xs1) \<Rightarrow>
             introsort_loop cmp (introsort_loop cmp xs1 cut_at lst depth_limit)
               first cut_at depth_limit)
      else xs)"

text \<open>\<open>std::__lg\<close>: the position of the highest bit.\<close>

fun lg :: "nat \<Rightarrow> nat" where
  "lg n = (if n < 2 then 0 else Suc (lg (n div 2)))"

declare lg.simps [simp del]

text \<open>
  The insertion sorts work on the sorted part before the element to place.
  \<open>__unguarded_linear_insert\<close> shifts right every element at the end of the sorted part
  that the value compares before. \<open>__insertion_sort\<close> first tests the value against the
  front element and moves it to the front if it compares before that.
\<close>

definition unguarded_linear_insert :: "('a \<Rightarrow> 'a \<Rightarrow> bool) \<Rightarrow> 'a \<Rightarrow> 'a list \<Rightarrow> 'a list" where
  "unguarded_linear_insert cmp val prefix =
     rev (dropWhile (cmp val) (rev prefix)) @ [val] @ rev (takeWhile (cmp val) (rev prefix))"

definition insertion_sort :: "('a \<Rightarrow> 'a \<Rightarrow> bool) \<Rightarrow> 'a list \<Rightarrow> 'a list" where
  "insertion_sort cmp xs =
     foldl (\<lambda>prefix val. if prefix \<noteq> [] \<and> cmp val (hd prefix) then val # prefix
                          else unguarded_linear_insert cmp val prefix) [] xs"

definition unguarded_insertion_sort ::
  "('a \<Rightarrow> 'a \<Rightarrow> bool) \<Rightarrow> 'a list \<Rightarrow> 'a list \<Rightarrow> 'a list" where
  "unguarded_insertion_sort cmp prefix xs =
     foldl (\<lambda>prefix val. unguarded_linear_insert cmp val prefix) prefix xs"

definition final_insertion_sort :: "('a \<Rightarrow> 'a \<Rightarrow> bool) \<Rightarrow> 'a list \<Rightarrow> 'a list" where
  "final_insertion_sort cmp xs =
     (if length xs > 16
      then unguarded_insertion_sort cmp (insertion_sort cmp (take 16 xs)) (drop 16 xs)
      else insertion_sort cmp xs)"

definition std_sort :: "('a \<Rightarrow> 'a \<Rightarrow> bool) \<Rightarrow> 'a list \<Rightarrow> 'a list" where
  "std_sort cmp xs =
     (if xs = [] then xs
      else final_insertion_sort cmp
             (introsort_loop cmp xs 0 (length xs) (lg (length xs) * 2)))"

text \<open>
  What the library asks of a comparison (a strict weak ordering): nothing compares before
  itself, and both comparing before and not comparing before are transitive.
\<close>

definition strict_weak_ordering :: "('a \<Rightarrow> 'a \<Rightarrow> bool) \<Rightarrow> bool" where
  "strict_weak_ordering cmp =
     ((\<forall>a. \<not> cmp a a) \<and>
      (\<forall>a b c. cmp a b \<and> cmp b c \<longrightarrow> cmp a c) \<and>
      (\<forall>a b c. \<not> cmp a b \<and> \<not> cmp b c \<longrightarrow> \<not> cmp a c))"

section \<open>DataCollector\<close>

text \<open>
  Of the collector's fields the history deque, its bound, the two owned components and
  the data callback are kept. As for alerts, the callback is a flag and the list of
  argument pairs it was invoked with (\<open>data_log\<close>).
\<close>

record DataCollector =
  system_history :: "SystemStats list"
  max_history_size :: nat
  info_collector :: SystemInfoCollector
  alert_system :: AlertSystem
  data_callback :: bool
  data_log :: "(SystemStats \<times> ProcessInfo list) list"

definition DataCollector_init :: "nat \<Rightarrow> DataCollector" where
  "DataCollector_init max_history =
     \<lparr>system_history = [], max_history_size = max_history, info_collector = collector0,
      alert_system = AlertSystem_init, data_callback = False, data_log = []\<rparr>"

text \<open>The block of \<open>collectionLoop\<close> that stores a snapshot under the data mutex.\<close>

definition store_data :: "SystemStats \<Rightarrow> DataCollector \<Rightarrow> DataCollector" where
  "store_data stats d =
     (let h = system_history d @ [stats]
      in d\<lparr>system_history := (if length h > max_history_size d then tl h else h)\<rparr>)"

fun store_all :: "SystemStats list \<Rightarrow> DataCollector \<Rightarrow> DataCollector" where
  "store_all [] d = d"
| "store_all (stats # rest) d = store_all rest (store_data stats d)"

text \<open>
  \<open>getSystemHistory\<close> is a const member; the model returns the collector as well, so that
  leaving it untouched is a statement about the function. Its parameter \<open>count\<close> is
  \<open>cnt\<close> here.
\<close>

definition getSystemHistory :: "nat \<Rightarrow> DataCollector \<Rightarrow> SystemStats list \<times> DataCollector" where
  "getSystemHistory cnt d =
     (if cnt = 0 \<or> cnt \<ge> length (system_history d) then (system_history d, d)
      else (drop (length (system_history d) - cnt) (system_history d), d))"

text \<open>The loop of \<open>collectionLoop\<close> that derives each process's memory share.\<close>

fun set_memory_percent :: "u64 \<Rightarrow> ProcessInfo list \<Rightarrow> fault + ProcessInfo list" where
  "set_memory_percent total_memory [] = Inr []"
| "set_memory_percent total_memory (proc # rest) =
     (case (if total_memory > 0 then
              (case checked_div (real (unat (memory_bytes proc))) (real (unat total_memory)) of
                 Inl e \<Rightarrow> Inl e
               | Inr q \<Rightarrow> Inr (proc\<lparr>ProcessInfo.memory_percent := q * 100\<rparr>))
            else Inr proc) of
        Inl e \<Rightarrow> Inl e
      | Inr proc' \<Rightarrow>
          (case set_memory_percent total_memory rest of
             Inl e \<Rightarrow> Inl e
           | Inr rest' \<Rightarrow> Inr (proc' # rest')))"

text \<open>The comparison that \<open>collectionLoop\<close> passes to \<open>std::sort\<close>.\<close>

definition by_cpu_desc :: "ProcessInfo \<Rightarrow> ProcessInfo \<Rightarrow> bool" where
  "by_cpu_desc a b = (ProcessInfo.cpu_percent a > ProcessInfo.cpu_percent b)"

text \<open>
  One iteration of \<open>collectionLoop\<close> in which the probe and the callbacks return. \<open>rd\<close>
  is what \<open>getSystemStats\<close> read, \<open>procs\<close> what the loop's own call of
  \<open>getProcessList\<close> returned.
\<close>

definition collection_tick ::
  "int \<Rightarrow> (real \<Rightarrow> string) \<Rightarrow> Platform_Reading
     \<Rightarrow> ProcessInfo list \<Rightarrow> DataCollector \<times> Clock \<Rightarrow> fault + (DataCollector \<times> Clock)" where
  "collection_tick tpm dstr rd procs s =
     (case s of (d, clk) \<Rightarrow>
        (case getSystemStats tpm rd (info_collector d) of
           Inl e \<Rightarrow> Inl e
         | Inr (stats, ic) \<Rightarrow>
             (case set_memory_percent (memory_total_bytes stats) procs of
                Inl e \<Rightarrow> Inl e
              | Inr processes0 \<Rightarrow>
                  (let processes = std_sort by_cpu_desc processes0;
                       d1 = store_data stats (d\<lparr>info_collector := ic\<rparr>)
                   in case checkAlerts tpm dstr stats processes (alert_system d1, clk) of
                        (alerts, a, clk') \<Rightarrow>
                          Inr (d1\<lparr>alert_system := a,
                                  data_log := (if data_callback d1
                                               then data_log d1 @ [(stats, processes)]
                                               else data_log d1)\<rparr>,
                               clk')))))"

text \<open>
  Two notions used to state the ordering of a tick's process list: a list in non-increasing
  order of \<open>cpu_percent\<close>, and a rearrangement that keeps processes of equal
  \<open>cpu_percent\<close> in their order of the input.
\<close>

definition cpu_descending :: "ProcessInfo list \<Rightarrow> bool" where
  "cpu_descending ps = sorted_wrt (\<lambda>a b. ProcessInfo.cpu_percent a \<ge> ProcessInfo.cpu_percent b) ps"

definition keeps_tie_order :: "ProcessInfo list \<Rightarrow> ProcessInfo list \<Rightarrow> bool" where
  "keeps_tie_order xs ys =
     list_all (\<lambda>p. filter (\<lambda>q. ProcessInfo.cpu_percent q = ProcessInfo.cpu_percent p) ys
                  = filter (\<lambda>q. ProcessInfo.cpu_percent q = ProcessInfo.cpu_percent p) xs) xs"

text \<open>
  Process lists of a probe that found the given pids, or the pids 1 to \<open>n\<close>, in this
  order, each record as the constructor leaves it (\<open>cpu_percent\<close> 0, which no code of
  the probe changes).
\<close>

definition processes_with_pids :: "u32 list \<Rightarrow> ProcessInfo list" where
  "processes_with_pids pids = map (\<lambda>p. ProcessInfo_init p []) pids"

definition idle_processes :: "nat \<Rightarrow> ProcessInfo list" where
  "idle_processes n = processes_with_pids (map of_nat [1..<Suc n])"

text \<open>A probe result on a machine that reports nothing: no CPU times, no memory, no disk.\<close>

definition idle_reading :: Platform_Reading where
  "idle_reading =
     \<lparr>clock_stats = 0, clock_io = 0, cpu_times = None, mem_used = 0, mem_total = 0,
      disk_read = 0, disk_write = 0, proc_table = []\<rparr>"

section \<open>Properties of the rate computation\<close>

lemma getIOStats_cases:
  "getIOStats tpm now r w c =
     Inr (if \<not> first_io_read c \<and> 0 < duration_cast_ms tpm (now - IOCounters.timestamp (prev_io_counters c))
          then real (unat (r - read_bytes (prev_io_counters c))) * 1000
                 / real_of_int (duration_cast_ms tpm (now - IOCounters.timestamp (prev_io_counters c)))
          else 0,
          if \<not> first_io_read c \<and> 0 < duration_cast_ms tpm (now - IOCounters.timestamp (prev_io_counters c))
          then real (unat (w - write_bytes (prev_io_counters c))) * 1000
                 / real_of_int (duration_cast_ms tpm (now - IOCounters.timestamp (prev_io_counters c)))
          else 0,
          c\<lparr>first_io_read := False,
            prev_io_counters := \<lparr>read_bytes = r, write_bytes = w, IOCounters.timestamp = now\<rparr>\<rparr>)"
  by (cases c) (simp add: getIOStats_def checked_div_def Let_def)

lemma getCPUUsageLinux_cases:
  "getCPUUsageLinux rd c =
     (case rd of None \<Rightarrow> Inr (0, c)
      | Some t \<Rightarrow>
          Inr (if \<not> first_cpu_read c \<and> cpu_total t - cpu_total (prev_cpu_times c) \<noteq> 0
               then real (unat ((cpu_total t - cpu_total (prev_cpu_times c))
                                - (cpu_idle t - cpu_idle (prev_cpu_times c))))
                      / real (unat (cpu_total t - cpu_total (prev_cpu_times c))) * 100
               else 0,
               c\<lparr>prev_cpu_times := t, first_cpu_read := False\<rparr>))"
  by (cases c; cases rd)
     (simp_all add: getCPUUsageLinux_def checked_div_def Let_def cpu_total_def cpu_idle_def
        unsigned_eq_0_iff)

lemma unsigned_real_nonneg: "0 \<le> (unsigned (x :: 'a::len word) :: real)"
  by (metis of_nat_0_le_iff of_nat_unat)

lemma getIOStats_nonneg:
  "\<exists>rr wr c'. getIOStats tpm now r w c = Inr (rr, wr, c') \<and> 0 \<le> rr \<and> 0 \<le> wr \<and>
       prev_io_counters c' = \<lparr>read_bytes = r, write_bytes = w, IOCounters.timestamp = now\<rparr> \<and>
       \<not> first_io_read c'"
  by (auto simp add: getIOStats_cases unsigned_real_nonneg intro!: divide_nonneg_nonneg)

lemma getIOStats_calls_nonneg:
  "\<exists>rates c'. getIOStats_calls tpm rs c = Inr (rates, c') \<and>
     (\<forall>(rr, wr) \<in> set rates. 0 \<le> rr \<and> 0 \<le> wr)"
proof (induction rs arbitrary: c)
  case Nil
  show ?case by simp
next
  case (Cons x rs)
  obtain now r w where x: "x = (now, r, w)" by (cases x)
  obtain rr wr c1 where g: "getIOStats tpm now r w c = Inr (rr, wr, c1)"
    and nn: "0 \<le> rr" "0 \<le> wr"
    using getIOStats_nonneg [of tpm now r w c] by blast
  from Cons.IH [of c1] obtain rates c2 where
    r: "getIOStats_calls tpm rs c1 = Inr (rates, c2)"
    and a: "\<forall>(rr, wr) \<in> set rates. 0 \<le> rr \<and> 0 \<le> wr"
    by blast
  show ?case using x g nn r a by simp
qed

text \<open>
  C1 (as amended). Every call of the rate update stores the current reading as the new
  baseline, also when the cumulative value has gone down, and no rate it emits is
  negative: for one call of \<open>getIOStats\<close>, for every sequence of calls, and for
  \<open>getCPUUsageLinux\<close>. Nothing is said about the rate being 0 after a decrease.
\<close>

theorem rate_update_rebaselines_and_is_nonnegative:
  "(\<exists>rr wr c'. getIOStats tpm now r w c = Inr (rr, wr, c') \<and> 0 \<le> rr \<and> 0 \<le> wr \<and>
       prev_io_counters c' = \<lparr>read_bytes = r, write_bytes = w, IOCounters.timestamp = now\<rparr> \<and>
       \<not> first_io_read c') \<and>
   (\<exists>rates c'. getIOStats_calls tpm rs c = Inr (rates, c') \<and>
       (\<forall>(rr, wr) \<in> set rates. 0 \<le> rr \<and> 0 \<le> wr)) \<and>
   (\<exists>p c'. getCPUUsageLinux rd c = Inr (p, c') \<and> 0 \<le> p \<and>
       (\<forall>t. rd = Some t \<longrightarrow> prev_cpu_times c' = t \<and> \<not> first_cpu_read c'))"
proof (intro conjI)
  show "\<exists>rr wr c'. getIOStats tpm now r w c = Inr (rr, wr, c') \<and> 0 \<le> rr \<and> 0 \<le> wr \<and>
       prev_io_counters c' = \<lparr>read_bytes = r, write_bytes = w, IOCounters.timestamp = now\<rparr> \<and>
       \<not> first_io_read c'"
    by (rule getIOStats_nonneg)
  show "\<exists>rates c'. getIOStats_calls tpm rs c = Inr (rates, c') \<and>
       (\<forall>(rr, wr) \<in> set rates. 0 \<le> rr \<and> 0 \<le> wr)"
    by (rule getIOStats_calls_nonneg)
  show "\<exists>p c'. getCPUUsageLinux rd c = Inr (p, c') \<and> 0 \<le> p \<and>
       (\<forall>t. rd = Some t \<longrightarrow> prev_cpu_times c' = t \<and> \<not> first_cpu_read c')"
    by (cases rd)
       (auto simp add: getCPUUsageLinux_cases unsigned_real_nonneg intro!: divide_nonneg_nonneg)
qed

text \<open>
  The theorem at a stream that drops from 1024 to 512 bytes one second after the baseline:
  the second rate is the wrapped difference, not negative, and 512 is the new baseline.
\<close>

theorem rate_update_rebaselines_and_is_nonnegative_witness:
  "getIOStats_calls 1000000 [(0, 1024, 0), (1000000000, 512, 0)] collector0 =
     Inr ([(0, 0), (18446744073709551104, 0)],
          collector0\<lparr>first_io_read := False,
                      prev_io_counters := \<lparr>read_bytes = 512, write_bytes = 0,
                                            IOCounters.timestamp = 1000000000\<rparr>\<rparr>)"
  using rate_update_rebaselines_and_is_nonnegative
          [of 1000000 0 1024 0 collector0 "[(0, 1024, 0), (1000000000, 512, 0)]" None]
  by (simp add: getIOStats_cases collector0_def duration_cast_ms_def signed_divide_int_def)

text \<open>
  C1 as stated fails. With baseline 1024 bytes at time 0 and a reading of 512 bytes one
  second later (nanosecond clock), the read rate is \<open>2^64 - 512\<close> bytes per second,
  not 0: the unsigned subtraction wraps around.
\<close>

theorem decreasing_counter_rate_counterexample:
  "(512 :: u64) < 1024 \<and>
   getIOStats 1000000 1000000000 512 0
     (collector0\<lparr>first_io_read := False,
                 prev_io_counters := \<lparr>read_bytes = 1024, write_bytes = 0,
                                       IOCounters.timestamp = 0\<rparr>\<rparr>)
   = Inr (18446744073709551104, 0,
          collector0\<lparr>first_io_read := False,
                      prev_io_counters := \<lparr>read_bytes = 512, write_bytes = 0,
                                            IOCounters.timestamp = 1000000000\<rparr>\<rparr>) \<and>
   (18446744073709551104 :: real) \<noteq> 0"
  by (simp add: getIOStats_cases collector0_def duration_cast_ms_def signed_divide_int_def)




lemma getSystemStats_memory_percent:
  "\<exists>st c'. getSystemStats tpm rd c = Inr (st, c') \<and>
     SystemStats.memory_percent st =
       (if mem_total rd > 0 then real (unat (mem_used rd)) / real (unat (mem_total rd)) * 100 else 0)"
  by (cases rd) (auto simp add: getSystemStats_def getIOStats_cases getCPUUsageLinux_cases checked_div_def Let_def
      SystemStats_init_def unsigned_eq_0_iff word_greater_zero_iff split: option.splits)

lemma set_memory_percent_total:
  "\<exists>ps'. set_memory_percent tm ps = Inr ps' \<and>
      ps' = map (\<lambda>p. if tm > 0 then p\<lparr>ProcessInfo.memory_percent := real (unat (memory_bytes p)) / real (unat tm) * 100\<rparr> else p) ps"
  by (induction ps) (auto simp add: checked_div_def unsigned_eq_0_iff word_greater_zero_iff)

text \<open>
  C3. No rate or percentage computation divides by zero. \<open>getIOStats\<close>,
  \<open>getCPUUsageLinux\<close>, the memory percentage of \<open>getSystemStats\<close> and the per-process
  memory percentage of the collection loop return a value for every input (never
  \<open>Inl Division_By_Zero\<close>); the value is a quotient only where the divisor is positive
  and is 0 (or, for a process, the untouched default) otherwise. In particular an elapsed
  time of 0, an unchanged CPU total and a memory total of 0 yield 0.
\<close>

theorem zero_divisor_yields_zero:
  "(getIOStats tpm now r w c =
      Inr (if \<not> first_io_read c \<and> 0 < duration_cast_ms tpm (now - IOCounters.timestamp (prev_io_counters c))
           then real (unat (r - read_bytes (prev_io_counters c))) * 1000
                  / real_of_int (duration_cast_ms tpm (now - IOCounters.timestamp (prev_io_counters c)))
           else 0,
           if \<not> first_io_read c \<and> 0 < duration_cast_ms tpm (now - IOCounters.timestamp (prev_io_counters c))
           then real (unat (w - write_bytes (prev_io_counters c))) * 1000
                  / real_of_int (duration_cast_ms tpm (now - IOCounters.timestamp (prev_io_counters c)))
           else 0,
           c\<lparr>first_io_read := False,
             prev_io_counters := \<lparr>read_bytes = r, write_bytes = w, IOCounters.timestamp = now\<rparr>\<rparr>)) \<and>
   (getCPUUsageLinux (Some t) c =
      Inr (if \<not> first_cpu_read c \<and> 0 < unat (cpu_total t - cpu_total (prev_cpu_times c))
           then real (unat ((cpu_total t - cpu_total (prev_cpu_times c))
                            - (cpu_idle t - cpu_idle (prev_cpu_times c))))
                  / real (unat (cpu_total t - cpu_total (prev_cpu_times c))) * 100
           else 0,
           c\<lparr>prev_cpu_times := t, first_cpu_read := False\<rparr>)) \<and>
   (\<exists>st c'. getSystemStats tpm rd c = Inr (st, c') \<and>
      SystemStats.memory_percent st =
        (if 0 < unat (mem_total rd)
         then real (unat (mem_used rd)) / real (unat (mem_total rd)) * 100 else 0)) \<and>
   (set_memory_percent tm ps =
      Inr (map (\<lambda>p. if 0 < unat tm
                     then p\<lparr>ProcessInfo.memory_percent :=
                              real (unat (memory_bytes p)) / real (unat tm) * 100\<rparr>
                     else p) ps)) \<and>
   (now = IOCounters.timestamp (prev_io_counters c) \<longrightarrow>
      (\<exists>c'. getIOStats tpm now r w c = Inr (0, 0, c'))) \<and>
   (cpu_total t = cpu_total (prev_cpu_times c) \<longrightarrow>
      (\<exists>c'. getCPUUsageLinux (Some t) c = Inr (0, c'))) \<and>
   (mem_total rd = 0 \<longrightarrow>
      (\<exists>st c'. getSystemStats tpm rd c = Inr (st, c') \<and> SystemStats.memory_percent st = 0))"
proof (intro conjI)
  show "mem_total rd = 0 \<longrightarrow>
      (\<exists>st c'. getSystemStats tpm rd c = Inr (st, c') \<and> SystemStats.memory_percent st = 0)"
    using getSystemStats_memory_percent [of tpm rd c] by auto
  show "\<exists>st c'. getSystemStats tpm rd c = Inr (st, c') \<and>
      SystemStats.memory_percent st =
        (if 0 < unat (mem_total rd)
         then real (unat (mem_used rd)) / real (unat (mem_total rd)) * 100 else 0)"
    using getSystemStats_memory_percent [of tpm rd c]
    by (simp add: word_greater_zero_iff unat_gt_0)
  show "set_memory_percent tm ps =
      Inr (map (\<lambda>p. if 0 < unat tm
                     then p\<lparr>ProcessInfo.memory_percent :=
                              real (unat (memory_bytes p)) / real (unat tm) * 100\<rparr>
                     else p) ps)"
    using set_memory_percent_total [of tm ps]
    by (simp add: word_greater_zero_iff unat_gt_0)
qed (simp_all add: getIOStats_cases getCPUUsageLinux_cases unat_gt_0 duration_cast_ms_def)

text \<open>
  The theorem at a second reading taken at the very clock value of the baseline, and at
  a probe that reports a memory total of 0.
\<close>

theorem zero_divisor_yields_zero_witness:
  "getIOStats 1000000 7 4096 0
     (collector0\<lparr>first_io_read := False,
                 prev_io_counters := \<lparr>read_bytes = 1024, write_bytes = 0,
                                       IOCounters.timestamp = 7\<rparr>\<rparr>)
   = Inr (0, 0,
          collector0\<lparr>first_io_read := False,
                      prev_io_counters := \<lparr>read_bytes = 4096, write_bytes = 0,
                                            IOCounters.timestamp = 7\<rparr>\<rparr>) \<and>
   (\<exists>st c'. getSystemStats 1000000
        \<lparr>clock_stats = 0, clock_io = 0, cpu_times = None, mem_used = 0, mem_total = 0,
         disk_read = 0, disk_write = 0, proc_table = []\<rparr>
        (collector0\<lparr>first_io_read := False,
                    prev_io_counters := \<lparr>read_bytes = 1024, write_bytes = 0,
                                          IOCounters.timestamp = 7\<rparr>\<rparr>) = Inr (st, c') \<and>
      SystemStats.memory_percent st = 0)"
  using zero_divisor_yields_zero
          [of 1000000 7 4096 0
              "collector0\<lparr>first_io_read := False,
                 prev_io_counters := \<lparr>read_bytes = 1024, write_bytes = 0,
                                       IOCounters.timestamp = 7\<rparr>\<rparr>"
              "prev_cpu_times collector0"
              "\<lparr>clock_stats = 0, clock_io = 0, cpu_times = None, mem_used = 0, mem_total = 0,
                disk_read = 0, disk_write = 0, proc_table = []\<rparr>" 0 "[]"]
  by (simp add: collector0_def duration_cast_ms_def)




section \<open>Properties of the history\<close>

lemma store_data_history:
  "length (system_history d) \<le> max_history_size d \<Longrightarrow>
     system_history (store_data x d)
       = drop (Suc (length (system_history d)) - max_history_size d) (system_history d @ [x])
     \<and> max_history_size (store_data x d) = max_history_size d"
  by (cases "length (system_history d) = max_history_size d")
     (auto simp add: store_data_def Let_def drop_Suc tl_append split: list.splits)

lemma drop_drop_append:
  assumes "length h \<le> n"
  shows "drop (length (drop (Suc (length h) - n) (h @ [x]) @ xs) - n)
              (drop (Suc (length h) - n) (h @ [x]) @ xs)
         = drop (length (h @ x # xs) - n) (h @ x # xs)"
proof (cases "length h = n")
  case True
  have k: "Suc (length h) - n = 1" using True by simp
  have a: "drop 1 (h @ [x]) @ xs = drop 1 (h @ x # xs)" by (cases h) simp_all
  have l: "length (drop 1 (h @ x # xs)) - n = length xs" using True by simp
  have r: "length (h @ x # xs) - n = 1 + length xs" using True by simp
  show ?thesis unfolding k a l r by (simp only: drop_drop add.commute)
next
  case False
  with assms have "Suc (length h) - n = 0" by simp
  then show ?thesis by simp
qed

lemma store_all_history:
  "length (system_history d) \<le> max_history_size d \<Longrightarrow>
     system_history (store_all xs d)
       = drop (length (system_history d @ xs) - max_history_size d) (system_history d @ xs)
     \<and> max_history_size (store_all xs d) = max_history_size d"
proof (induction xs arbitrary: d)
  case Nil
  then show ?case by simp
next
  case (Cons x xs)
  let ?d1 = "store_data x d"
  from store_data_history [OF Cons.prems, of x]
  have h1: "system_history ?d1
              = drop (Suc (length (system_history d)) - max_history_size d) (system_history d @ [x])"
    and m1: "max_history_size ?d1 = max_history_size d" by simp_all
  have le1: "length (system_history ?d1) \<le> max_history_size ?d1"
    using Cons.prems by (simp add: h1 m1)
  from Cons.IH [OF le1]
  have "system_history (store_all xs ?d1)
          = drop (length (system_history ?d1 @ xs) - max_history_size d) (system_history ?d1 @ xs)"
    and m2: "max_history_size (store_all xs ?d1) = max_history_size d"
    by (simp_all add: m1)
  then show ?case
    using drop_drop_append [OF Cons.prems, of x xs] by (simp add: h1)
qed

text \<open>
  C4. The history is a bounded queue. While its length is within the bound, any sequence
  of stores keeps it within the bound (and the bound itself fixed); a store at capacity
  drops exactly the oldest entry, a store below capacity only appends; a collector built
  with capacity N never holds more than N snapshots, whatever is stored; and after more
  than N stores into it, the full history is exactly the last N stored snapshots in the
  order stored.
\<close>

theorem history_bounded_fifo:
  "(length (system_history d) \<le> max_history_size d \<longrightarrow>
      length (system_history (store_all xs d)) \<le> max_history_size d \<and>
      max_history_size (store_all xs d) = max_history_size d) \<and>
   (length (system_history d) = max_history_size d \<longrightarrow>
      system_history (store_data x d) = tl (system_history d @ [x]) \<and>
      length (system_history (store_data x d)) = max_history_size d) \<and>
   (length (system_history d) < max_history_size d \<longrightarrow>
      system_history (store_data x d) = system_history d @ [x]) \<and>
   length (system_history (store_all xs (DataCollector_init N))) \<le> N \<and>
   (length xs > N \<longrightarrow>
      fst (getSystemHistory 0 (store_all xs (DataCollector_init N))) = drop (length xs - N) xs \<and>
      length (fst (getSystemHistory 0 (store_all xs (DataCollector_init N)))) = N)"
proof (intro conjI impI)
  have i: "length (system_history (DataCollector_init N)) \<le> max_history_size (DataCollector_init N)"
    by (simp add: DataCollector_init_def)
  from store_all_history [OF i, of xs]
  show "length (system_history (store_all xs (DataCollector_init N))) \<le> N"
    by (simp add: DataCollector_init_def)
next
  assume a: "length (system_history d) \<le> max_history_size d"
  from store_all_history [OF a, of xs]
  show "length (system_history (store_all xs d)) \<le> max_history_size d"
    and "max_history_size (store_all xs d) = max_history_size d"
    by simp_all
next
  assume a: "length (system_history d) = max_history_size d"
  then show "system_history (store_data x d) = tl (system_history d @ [x])"
    and "length (system_history (store_data x d)) = max_history_size d"
    by (simp_all add: store_data_def Let_def)
next
  assume "length (system_history d) < max_history_size d"
  then show "system_history (store_data x d) = system_history d @ [x]"
    by (simp add: store_data_def Let_def)
next
  assume a: "length xs > N"
  have i: "length (system_history (DataCollector_init N)) \<le> max_history_size (DataCollector_init N)"
    by (simp add: DataCollector_init_def)
  from store_all_history [OF i, of xs]
  have h: "system_history (store_all xs (DataCollector_init N)) = drop (length xs - N) xs"
    by (simp add: DataCollector_init_def)
  show "fst (getSystemHistory 0 (store_all xs (DataCollector_init N))) = drop (length xs - N) xs"
    using h by (simp add: getSystemHistory_def)
  show "length (fst (getSystemHistory 0 (store_all xs (DataCollector_init N)))) = N"
    using h a by (simp add: getSystemHistory_def)
qed

text \<open>
  The theorem at capacity 3 and five stored snapshots: the history is snapshots 3, 4, 5.
\<close>

theorem history_bounded_fifo_witness:
  "fst (getSystemHistory 0
          (store_all [SystemStats_init 1, SystemStats_init 2, SystemStats_init 3,
                      SystemStats_init 4, SystemStats_init 5] (DataCollector_init 3)))
     = [SystemStats_init 3, SystemStats_init 4, SystemStats_init 5]"
  using history_bounded_fifo
          [of "DataCollector_init 3"
              "[SystemStats_init 1, SystemStats_init 2, SystemStats_init 3,
                SystemStats_init 4, SystemStats_init 5]" "SystemStats_init 0" 3]
  by (simp add: DataCollector_init_def)

text \<open>
  C5. \<open>getSystemHistory\<close> leaves the collector as it was. It returns the whole history
  when the count is 0 or at least the size; otherwise it returns exactly \<open>cnt\<close> entries,
  the last ones of the history in their stored (oldest first) order.
\<close>

theorem history_query_suffix:
  "snd (getSystemHistory cnt d) = d \<and>
   (cnt = 0 \<or> cnt \<ge> length (system_history d) \<longrightarrow>
      fst (getSystemHistory cnt d) = system_history d) \<and>
   (0 < cnt \<and> cnt < length (system_history d) \<longrightarrow>
      length (fst (getSystemHistory cnt d)) = cnt \<and>
      fst (getSystemHistory cnt d) = drop (length (system_history d) - cnt) (system_history d) \<and>
      (\<exists>older. system_history d = older @ fst (getSystemHistory cnt d)))"
proof (intro conjI impI)
  assume a: "0 < cnt \<and> cnt < length (system_history d)"
  then have f: "fst (getSystemHistory cnt d)
                  = drop (length (system_history d) - cnt) (system_history d)"
    by (simp add: getSystemHistory_def)
  show "fst (getSystemHistory cnt d) = drop (length (system_history d) - cnt) (system_history d)"
    by (rule f)
  show "length (fst (getSystemHistory cnt d)) = cnt"
    using a by (simp add: f)
  have "system_history d
          = take (length (system_history d) - cnt) (system_history d) @ fst (getSystemHistory cnt d)"
    by (simp add: f)
  then show "\<exists>older. system_history d = older @ fst (getSystemHistory cnt d)" ..
qed (simp_all add: getSystemHistory_def)

text \<open>
  The theorem at a history of three snapshots and a count of 2.
\<close>

theorem history_query_suffix_witness:
  "getSystemHistory 2
     ((DataCollector_init 3)\<lparr>system_history :=
          [SystemStats_init 3, SystemStats_init 4, SystemStats_init 5]\<rparr>)
   = ([SystemStats_init 4, SystemStats_init 5],
      (DataCollector_init 3)\<lparr>system_history :=
          [SystemStats_init 3, SystemStats_init 4, SystemStats_init 5]\<rparr>)"
  using history_query_suffix
          [of 2 "(DataCollector_init 3)\<lparr>system_history :=
                    [SystemStats_init 3, SystemStats_init 4, SystemStats_init 5]\<rparr>"]
  by (simp add: getSystemHistory_def)

section \<open>Properties of the cooldown\<close>

lemma int64_fits: "fits_int64 x \<Longrightarrow> int64 x = x"
  by (simp add: int64_def fits_int64_def)

text \<open>
  C6 (as amended). The cooldown rule of \<open>shouldAlert\<close>, with the cooldown counted in
  clock ticks. A key absent from the map is granted. A key present with time t is granted
  exactly when the 64-bit values of now - t and of the cooldown compare so; when both fit
  64 bits, that is exactly when now - t is at least the cooldown. A grant stores now
  under the key, and the firing block of a threshold branch runs on the state that already
  holds this entry, so the callback is invoked after the update. Hence, for a cooldown
  that fits: if a key is granted at t0, a request at t0 + eps with eps below the cooldown
  is refused and a request at t0 + cooldown is granted again, two grants out of three; and
  three runs of a threshold branch whose metric is exceeded each time, the second less
  than a cooldown and the third at least a cooldown after the first, fire exactly the
  first and the third alert.
\<close>

theorem cooldown_rule:
  "(last_alerts a key = None \<longrightarrow>
      shouldAlert tpm key now a = (True, a\<lparr>last_alerts := (last_alerts a)(key \<mapsto> now)\<rparr>)) \<and>
   (\<forall>t. last_alerts a key = Some t \<longrightarrow>
      fst (shouldAlert tpm key now a)
        = (int64 (now - t) \<ge> int64 (cooldown_period (thresholds a) * (1000 * tpm)))) \<and>
   (\<forall>t. last_alerts a key = Some t \<and> fits_int64 (now - t) \<and>
        fits_int64 (cooldown_period (thresholds a) * (1000 * tpm)) \<longrightarrow>
      fst (shouldAlert tpm key now a) = (now - t \<ge> cooldown_period (thresholds a) * (1000 * tpm))) \<and>
   (fst (shouldAlert tpm key now a) \<longrightarrow>
      snd (shouldAlert tpm key now a) = a\<lparr>last_alerts := (last_alerts a)(key \<mapsto> now)\<rparr>) \<and>
   (fst (shouldAlert tpm key (ticks clk (reads clk)) a) \<longrightarrow>
      check_key tpm True key ty msg alerts (a, clk)
        = emit_alert ty msg alerts
            (a\<lparr>last_alerts := (last_alerts a)(key \<mapsto> ticks clk (reads clk))\<rparr>,
             clk\<lparr>reads := Suc (reads clk)\<rparr>)) \<and>
   (fst (shouldAlert tpm key t0 a) \<and> eps < cooldown_period (thresholds a) * (1000 * tpm) \<and>
    fits_int64 eps \<and> fits_int64 (cooldown_period (thresholds a) * (1000 * tpm)) \<longrightarrow>
      (case shouldAlert tpm key t0 a of (b1, a1) \<Rightarrow>
         case shouldAlert tpm key (t0 + eps) a1 of (b2, a2) \<Rightarrow>
           case shouldAlert tpm key (t0 + cooldown_period (thresholds a) * (1000 * tpm)) a2 of
             (b3, a3) \<Rightarrow>
               b1 \<and> \<not> b2 \<and> b3 \<and>
               last_alerts a3 key = Some (t0 + cooldown_period (thresholds a) * (1000 * tpm)))) \<and>
   (fst (shouldAlert tpm key (ticks clk (reads clk)) a) \<and>
    fits_int64 (cooldown_period (thresholds a) * (1000 * tpm)) \<and>
    fits_int64 (ticks clk (reads clk + 2) - ticks clk (reads clk)) \<and>
    fits_int64 (ticks clk (reads clk + 3) - ticks clk (reads clk)) \<and>
    ticks clk (reads clk + 2) - ticks clk (reads clk)
      < cooldown_period (thresholds a) * (1000 * tpm) \<and>
    ticks clk (reads clk + 3) - ticks clk (reads clk)
      \<ge> cooldown_period (thresholds a) * (1000 * tpm) \<longrightarrow>
      (case check_key tpm True key ty m1 [] (a, clk) of (al1, a1, clk1) \<Rightarrow>
         case check_key tpm True key ty m2 al1 (a1, clk1) of (al2, a2, clk2) \<Rightarrow>
           case check_key tpm True key ty m3 al2 (a2, clk2) of (al3, a3, clk3) \<Rightarrow>
             map message al3 = [m1, m3] \<and>
             (alert_callback a \<longrightarrow> delivered a3 = delivered a @ al3)))"
  by (auto simp add: shouldAlert_def check_key_def emit_alert_def system_clock_now_def Let_def
        numeral_2_eq_2 numeral_3_eq_3 int64_fits split: option.splits)

text \<open>
  The theorem for key ''cpu'' with the default cooldown of 60 seconds and a nanosecond
  clock: on a fresh alert system (requests at 0 s, 10 s and 60 s; three runs of a threshold
  branch on a clock that shows 0 s for three reads and 60 s afterwards), and on the state
  with an entry at 0 s.
\<close>

theorem cooldown_rule_witness:
  "shouldAlert 1000000 ''cpu'' 0 AlertSystem_init
     = (True, AlertSystem_init\<lparr>last_alerts := [''cpu'' \<mapsto> 0]\<rparr>) \<and>
   shouldAlert 1000000 ''cpu'' 10000000000 (AlertSystem_init\<lparr>last_alerts := [''cpu'' \<mapsto> 0]\<rparr>)
     = (False, AlertSystem_init\<lparr>last_alerts := [''cpu'' \<mapsto> 0]\<rparr>) \<and>
   shouldAlert 1000000 ''cpu'' 60000000000 (AlertSystem_init\<lparr>last_alerts := [''cpu'' \<mapsto> 0]\<rparr>)
     = (True, AlertSystem_init\<lparr>last_alerts := [''cpu'' \<mapsto> 60000000000]\<rparr>) \<and>
   (case check_key 1000000 True ''cpu'' CPU ''one'' []
           (AlertSystem_init, stepping_clock 3 0 60000000000) of
      (al1, a1, clk1) \<Rightarrow>
        (case check_key 1000000 True ''cpu'' CPU ''two'' al1 (a1, clk1) of
           (al2, a2, clk2) \<Rightarrow>
             (case check_key 1000000 True ''cpu'' CPU ''three'' al2 (a2, clk2) of
                (al3, a3, clk3) \<Rightarrow> map message al3))) = [''one'', ''three'']"
  using cooldown_rule [of AlertSystem_init "''cpu''" 1000000 0
                          "stepping_clock 3 0 60000000000" CPU "''one''" "[]" 0 10000000000
                          "''one''" "''two''" "''three''"]
        cooldown_rule [of "AlertSystem_init\<lparr>last_alerts := [''cpu'' \<mapsto> 0]\<rparr>" "''cpu''"
                          1000000 60000000000
                          "stepping_clock 3 0 60000000000" CPU "''one''" "[]" 0 10000000000
                          "''one''" "''two''" "''three''"]
  by (simp add: shouldAlert_def check_key_def emit_alert_def system_clock_now_def
        stepping_clock_def AlertSystem_init_def default_thresholds_def int64_def fits_int64_def)

text \<open>
  C6 as stated fails for a cooldown whose tick count does not fit 64 bits. With a cooldown
  of 9223372037 seconds on a nanosecond clock and an entry at time 0, a request one second
  later is granted, although one second is far below the cooldown: the product of the
  seconds and the ticks of a second wraps around to a negative number.
\<close>

theorem cooldown_overflow_counterexample:
  "last_alerts (AlertSystem_init\<lparr>thresholds := default_thresholds\<lparr>cooldown_period := 9223372037\<rparr>,
                                last_alerts := [''cpu'' \<mapsto> 0]\<rparr>) ''cpu'' = Some 0 \<and>
   fst (shouldAlert 1000000 ''cpu'' 1000000000
          (AlertSystem_init\<lparr>thresholds := default_thresholds\<lparr>cooldown_period := 9223372037\<rparr>,
                            last_alerts := [''cpu'' \<mapsto> 0]\<rparr>)) \<and>
   \<not> ((1000000000 :: int) - 0 \<ge> 9223372037 * (1000 * 1000000))"
  by (simp add: shouldAlert_def AlertSystem_init_def default_thresholds_def int64_def)

text \<open>
  C10. A refused request leaves the alert system exactly as it was, and a request for one
  key, granted or not, leaves the entry of every other key and all other fields as they
  were.
\<close>

theorem cooldown_frame:
  "(\<not> fst (shouldAlert tpm key now a) \<longrightarrow> snd (shouldAlert tpm key now a) = a) \<and>
   (\<forall>other. other \<noteq> key \<longrightarrow>
      last_alerts (snd (shouldAlert tpm key now a)) other = last_alerts a other) \<and>
   thresholds (snd (shouldAlert tpm key now a)) = thresholds a \<and>
   alert_callback (snd (shouldAlert tpm key now a)) = alert_callback a \<and>
   delivered (snd (shouldAlert tpm key now a)) = delivered a"
  by (simp add: shouldAlert_def)

text \<open>
  The theorem with entries for ''cpu'' and ''memory'': a refused and a granted request
  for ''cpu''.
\<close>

theorem cooldown_frame_witness:
  "shouldAlert 1000000 ''cpu'' 10000000000
     (AlertSystem_init\<lparr>last_alerts := [''cpu'' \<mapsto> 0, ''memory'' \<mapsto> 5]\<rparr>)
     = (False, AlertSystem_init\<lparr>last_alerts := [''cpu'' \<mapsto> 0, ''memory'' \<mapsto> 5]\<rparr>) \<and>
   last_alerts (snd (shouldAlert 1000000 ''cpu'' 60000000000
     (AlertSystem_init\<lparr>last_alerts := [''cpu'' \<mapsto> 0, ''memory'' \<mapsto> 5]\<rparr>))) ''memory'' = Some 5"
  using cooldown_frame [of 1000000 "''cpu''" 10000000000
                           "AlertSystem_init\<lparr>last_alerts := [''cpu'' \<mapsto> 0, ''memory'' \<mapsto> 5]\<rparr>"]
        cooldown_frame [of 1000000 "''cpu''" 60000000000
                           "AlertSystem_init\<lparr>last_alerts := [''cpu'' \<mapsto> 0, ''memory'' \<mapsto> 5]\<rparr>"]
  by (simp add: shouldAlert_def AlertSystem_init_def default_thresholds_def int64_def)

section \<open>Per-process alerts\<close>

lemma digit_val_digit_char: "d < 10 \<Longrightarrow> digit_val (digit_char d) = d"
  by (simp add: digit_val_def digit_char_def)

lemma digits_val_snoc: "digits_val (s @ [ch]) = 10 * digits_val s + digit_val ch"
  by (simp add: digits_val_def)

lemma digits_val_to_string: "digits_val (to_string n) = n"
proof (induction n rule: to_string.induct)
  case (1 n)
  show ?case
  proof (cases "n < 10")
    case True
    then show ?thesis
      by (subst to_string.simps) (simp add: digits_val_def digit_val_digit_char)
  next
    case False
    then have "digits_val (to_string (n div 10)) = n div 10" using 1 by simp
    with False show ?thesis
      by (subst to_string.simps) (simp add: digits_val_snoc digit_val_digit_char)
  qed
qed

lemma to_string_inj: "to_string m = to_string n \<Longrightarrow> m = n"
  by (metis digits_val_to_string)

lemma process_key_inj: "process_key p = process_key q \<Longrightarrow> p = q"
  by (auto simp add: process_key_def word_unat_eq_iff dest!: to_string_inj)

lemma process_key_not_system:
  "process_key p \<noteq> ''cpu''" "process_key p \<noteq> ''memory''" "process_key p \<noteq> ''io''"
  by (simp_all add: process_key_def)

lemma to_string_7: "to_string 7 = ''7''"
  by code_simp

lemma check_key_frame:
  assumes "check_key tpm ex key ty msg alerts (a, clk) = (alerts', a', clk')"
  shows "ticks clk' = ticks clk" and "thresholds a' = thresholds a"
    and "alert_callback a' = alert_callback a"
    and "k \<noteq> key \<Longrightarrow> last_alerts a' k = last_alerts a k"
    and "last_alerts a k \<noteq> None \<Longrightarrow> last_alerts a' k \<noteq> None"
    and "\<exists>extra. alerts' = alerts @ extra"
    and "reads clk \<le> reads clk'"
  using assms
  by (auto simp add: check_key_def shouldAlert_def emit_alert_def system_clock_now_def Let_def
      split: if_splits option.splits prod.splits bool.splits)

lemma check_key_fires:
  assumes "ex" and "cooled_down tpm a clk key"
  shows "\<exists>t a' clk'. check_key tpm ex key ty msg alerts (a, clk)
            = (alerts @ [\<lparr>message = msg, Alert.timestamp = t, type = ty\<rparr>], a', clk')
          \<and> last_alerts a' key \<noteq> None"
  using assms
  by (auto simp add: check_key_def shouldAlert_def emit_alert_def system_clock_now_def Let_def
      cooled_down_def int64_fits split: option.splits)

lemma cooled_down_frame:
  assumes "cooled_down tpm a clk k" and "ticks clk' = ticks clk"
    and "thresholds a' = thresholds a" and "last_alerts a' k = last_alerts a k"
    and "reads clk \<le> reads clk'"
  shows "cooled_down tpm a' clk' k"
  using assms by (auto simp add: cooled_down_def split: option.splits)

lemma check_processes_prefix:
  "\<exists>extra a' clk'. check_processes tpm dstr ps alerts (a, clk) = (alerts @ extra, a', clk')"
proof (induction ps arbitrary: alerts a clk)
  case Nil
  show ?case by simp
next
  case (Cons q rest)
  obtain al1 a1 clk1 where
    k: "check_key tpm (ProcessInfo.cpu_percent q > 50) (process_key (pid q)) PROCESS
          (process_message dstr q) alerts (a, clk) = (al1, a1, clk1)"
    by (metis prod_cases3)
  from check_key_frame(6) [OF k] obtain e1 where e1: "al1 = alerts @ e1" by blast
  from Cons.IH [of al1 a1 clk1] obtain e2 a2 clk2 where
    "check_processes tpm dstr rest al1 (a1, clk1) = (al1 @ e2, a2, clk2)" by blast
  then show ?case using k e1 by simp
qed

lemma check_processes_frame:
  assumes "check_processes tpm dstr ps alerts (a, clk) = (alerts', a', clk')"
  shows "ticks clk' = ticks clk \<and> thresholds a' = thresholds a \<and>
         ((\<forall>q \<in> set ps. pid q \<noteq> p) \<longrightarrow> last_alerts a' (process_key p) = last_alerts a (process_key p)) \<and>
         (last_alerts a k \<noteq> None \<longrightarrow> last_alerts a' k \<noteq> None)"
  using assms
proof (induction ps arbitrary: alerts a clk)
  case Nil
  then show ?case by simp
next
  case (Cons q rest)
  obtain al1 a1 clk1 where
    k: "check_key tpm (ProcessInfo.cpu_percent q > 50) (process_key (pid q)) PROCESS
          (process_message dstr q) alerts (a, clk) = (al1, a1, clk1)"
    by (metis prod_cases3)
  with Cons.prems have r: "check_processes tpm dstr rest al1 (a1, clk1) = (alerts', a', clk')"
    by simp
  note f = check_key_frame [OF k]
  have "pid q \<noteq> p \<Longrightarrow> last_alerts a1 (process_key p) = last_alerts a (process_key p)"
    using f(4) [of "process_key p"] by (auto dest: process_key_inj)
  then show ?case
    using Cons.IH [OF r] f(1,2) f(5) [of k] by auto
qed

lemma check_processes_fires:
  assumes "distinct (map pid ps)" and "p \<in> set ps" and "ProcessInfo.cpu_percent p > 50"
    and "cooled_down tpm a clk (process_key (pid p))"
  shows "\<exists>alerts' a' clk'. check_processes tpm dstr ps alerts (a, clk) = (alerts', a', clk') \<and>
           (\<exists>al \<in> set alerts'. type al = PROCESS \<and> message al = process_message dstr p) \<and>
           last_alerts a' (process_key (pid p)) \<noteq> None"
  using assms
proof (induction ps arbitrary: alerts a clk)
  case Nil
  then show ?case by simp
next
  case (Cons q rest)
  obtain al1 a1 clk1 where
    k: "check_key tpm (ProcessInfo.cpu_percent q > 50) (process_key (pid q)) PROCESS
          (process_message dstr q) alerts (a, clk) = (al1, a1, clk1)"
    by (metis prod_cases3)
  note f = check_key_frame [OF k]
  show ?case
  proof (cases "p = q")
    case True
    from check_key_fires [of "ProcessInfo.cpu_percent q > 50" tpm a clk "process_key (pid q)"
                             PROCESS "process_message dstr q" alerts]
      Cons.prems True k
    obtain t where al1: "al1 = alerts @ [\<lparr>message = process_message dstr q, Alert.timestamp = t,
                                           type = PROCESS\<rparr>]"
      and set1: "last_alerts a1 (process_key (pid q)) \<noteq> None"
      by auto
    obtain extra a2 clk2 where
      r: "check_processes tpm dstr rest al1 (a1, clk1) = (al1 @ extra, a2, clk2)"
      using check_processes_prefix by blast
    from check_processes_frame [OF r, of _ "process_key (pid q)"] set1
    have "last_alerts a2 (process_key (pid q)) \<noteq> None" by blast
    then show ?thesis using k r al1 True by auto
  next
    case False
    with Cons.prems have prest: "p \<in> set rest" and ne: "pid q \<noteq> pid p"
      and d: "distinct (map pid rest)" by auto
    have "process_key (pid p) \<noteq> process_key (pid q)"
      using ne by (auto dest: process_key_inj)
    then have "last_alerts a1 (process_key (pid p)) = last_alerts a (process_key (pid p))"
      by (rule f(4))
    with Cons.prems(4) f(1,2,7) have c1: "cooled_down tpm a1 clk1 (process_key (pid p))"
      by (simp add: cooled_down_frame)
    from Cons.IH [OF d prest Cons.prems(3) c1, of al1]
    show ?thesis using k by simp
  qed
qed

lemma check_key_delivered:
  assumes "check_key tpm ex key ty msg alerts (a, clk) = (alerts', a', clk')"
  shows "\<exists>extra. alerts' = alerts @ extra \<and>
           delivered a' = (if alert_callback a then delivered a @ extra else delivered a)"
  using assms
  by (auto simp add: check_key_def shouldAlert_def emit_alert_def system_clock_now_def Let_def
      split: if_splits option.splits prod.splits bool.splits)

lemma check_processes_delivered:
  "\<exists>extra a' clk'. check_processes tpm dstr ps alerts (a, clk) = (alerts @ extra, a', clk') \<and>
      delivered a' = (if alert_callback a then delivered a @ extra else delivered a)"
proof (induction ps arbitrary: alerts a clk)
  case Nil
  show ?case by simp
next
  case (Cons q rest)
  obtain al1 a1 clk1 where
    k: "check_key tpm (ProcessInfo.cpu_percent q > 50) (process_key (pid q)) PROCESS
          (process_message dstr q) alerts (a, clk) = (al1, a1, clk1)"
    by (metis prod_cases3)
  from check_key_delivered [OF k] obtain e1 where e1: "al1 = alerts @ e1"
    and d1: "delivered a1 = (if alert_callback a then delivered a @ e1 else delivered a)" by blast
  have cb: "alert_callback a1 = alert_callback a" by (rule check_key_frame(3) [OF k])
  from Cons.IH [of al1 a1 clk1] obtain e2 a2 clk2 where
    r: "check_processes tpm dstr rest al1 (a1, clk1) = (al1 @ e2, a2, clk2)"
    and d2: "delivered a2 = (if alert_callback a1 then delivered a1 @ e2 else delivered a1)"
    by blast
  show ?case using k e1 r d1 d2 cb by simp
qed

text \<open>The three system-level branches that run before the process loop.\<close>

lemma system_checks_frame:
  assumes "check_key tpm e1 ''cpu'' CPU m1 [] (a, clk) = (al1, a1, clk1)"
    and "check_key tpm e2 ''memory'' MEMORY m2 al1 (a1, clk1) = (al2, a2, clk2)"
    and "check_key tpm e3 ''io'' IO m3 al2 (a2, clk2) = (al3, a3, clk3)"
  shows "ticks clk3 = ticks clk" and "thresholds a3 = thresholds a"
    and "alert_callback a3 = alert_callback a"
    and "last_alerts a3 (process_key p) = last_alerts a (process_key p)"
    and "delivered a3 = (if alert_callback a then delivered a @ al3 else delivered a)"
    and "reads clk \<le> reads clk3"
proof -
  note f1 = check_key_frame [OF assms(1)]
  note f2 = check_key_frame [OF assms(2)]
  note f3 = check_key_frame [OF assms(3)]
  show "ticks clk3 = ticks clk" using f1(1) f2(1) f3(1) by simp
  show "reads clk \<le> reads clk3" using f1(7) f2(7) f3(7) by simp
  show "thresholds a3 = thresholds a" using f1(2) f2(2) f3(2) by simp
  show "alert_callback a3 = alert_callback a" using f1(3) f2(3) f3(3) by simp
  show "last_alerts a3 (process_key p) = last_alerts a (process_key p)"
    using f1(4) [of "process_key p"] f2(4) [of "process_key p"] f3(4) [of "process_key p"]
      process_key_not_system [of p]
    by simp
  from check_key_delivered [OF assms(1)] check_key_delivered [OF assms(2)]
    check_key_delivered [OF assms(3)] f1(3) f2(3)
  show "delivered a3 = (if alert_callback a then delivered a @ al3 else delivered a)"
    by auto
qed

text \<open>
  C7 (as amended). In one call of \<open>checkAlerts\<close> on a process list with pairwise
  distinct pids, every process whose \<open>cpu_percent\<close> exceeds 50 and whose key
  \<open>process_<pid>\<close> is out of cooldown fires a PROCESS alert carrying its message: the
  alert is in the returned list, the key has an entry afterwards, and a registered callback
  has been invoked with exactly the returned alerts. Out of cooldown means: the key has no
  entry, or every reading that the clock gives from this call on is at least the cooldown
  after the entry (\<open>cooled_down\<close>); earlier readings, among them the one that wrote
  the entry, play no part. What other processes do in the same call plays no part either,
  since distinct pids have distinct keys.
\<close>

theorem process_alerts_fire_per_pid:
  assumes "distinct (map pid processes)" and "p \<in> set processes"
    and "ProcessInfo.cpu_percent p > 50"
    and "cooled_down tpm a clk (process_key (pid p))"
  shows "\<exists>alerts a' clk'.
           checkAlerts tpm dstr stats processes (a, clk) = (alerts, a', clk') \<and>
           (\<exists>al \<in> set alerts. type al = PROCESS \<and> message al = process_message dstr p) \<and>
           last_alerts a' (process_key (pid p)) \<noteq> None \<and>
           delivered a' = (if alert_callback a then delivered a @ alerts else delivered a)"
proof -
  let ?io = "(disk_io_read_rate stats + disk_io_write_rate stats) / (1024 * 1024)"
  obtain al1 a1 clk1 where
    k1: "check_key tpm (SystemStats.cpu_percent stats > cpu_threshold (thresholds a)) ''cpu'' CPU
           (''High CPU usage: '' @ dstr (SystemStats.cpu_percent stats) @ ''%'') [] (a, clk)
         = (al1, a1, clk1)"
    by (metis prod_cases3)
  obtain al2 a2 clk2 where
    k2: "check_key tpm (SystemStats.memory_percent stats > memory_threshold (thresholds a1))
           ''memory'' MEMORY
           (''High memory usage: '' @ dstr (SystemStats.memory_percent stats) @ ''%'')
           al1 (a1, clk1)
         = (al2, a2, clk2)"
    by (metis prod_cases3)
  obtain al3 a3 clk3 where
    k3: "check_key tpm (?io > io_threshold (thresholds a2)) ''io'' IO
           (''High I/O activity: '' @ dstr ?io @ '' MB/s'') al2 (a2, clk2)
         = (al3, a3, clk3)"
    by (metis prod_cases3)
  note f = system_checks_frame [OF k1 k2 k3]
  have c3: "cooled_down tpm a3 clk3 (process_key (pid p))"
    using assms(4) f(1,2,6) f(4) [of "pid p"] by (simp add: cooled_down_frame)
  from check_processes_fires [OF assms(1,2,3) c3, of dstr al3]
  obtain alerts a' clk' where
    r: "check_processes tpm dstr processes al3 (a3, clk3) = (alerts, a', clk')"
    and fired: "\<exists>al \<in> set alerts. type al = PROCESS \<and> message al = process_message dstr p"
    and rec: "last_alerts a' (process_key (pid p)) \<noteq> None"
    by blast
  from check_processes_delivered [of tpm dstr processes al3 a3 clk3] r
  obtain extra where ex: "alerts = al3 @ extra"
    and d: "delivered a' = (if alert_callback a3 then delivered a3 @ extra else delivered a3)"
    by auto
  have del: "delivered a' = (if alert_callback a then delivered a @ alerts else delivered a)"
    using d ex f(3) f(5) by simp
  have "checkAlerts tpm dstr stats processes (a, clk) = (alerts, a', clk')"
    using k1 k2 k3 r by (simp add: checkAlerts_def Let_def)
  with fired rec del show ?thesis by blast
qed

lemma to_string_8: "to_string 8 = ''8''"
  by code_simp

lemmas alert_eval =
  checkAlerts_def check_key_def shouldAlert_def emit_alert_def system_clock_now_def
  process_key_def process_message_def busy_process_def ProcessInfo_init_def
  AlertSystem_init_def default_thresholds_def frozen_clock_def stepping_clock_def no_digits_def
  SystemStats_init_def cooled_down_def int64_def fits_int64_def to_string_7 to_string_8

text \<open>
  The theorem on the state that a first firing has left. Pids 7 and 8 are both over the
  threshold; the clock shows 0 for its first four reads and 61 seconds afterwards. The
  first call fires both and uses up the four reads; the second call, to which the theorem
  is applied, finds both keys entered at 0 and out of the 60 second cooldown, and fires
  both again.
\<close>

theorem process_alerts_fire_per_pid_witness:
  "snd (checkAlerts 1000000 no_digits (SystemStats_init 0)
          [busy_process 7 ''a'' 90, busy_process 8 ''b'' 60]
          (AlertSystem_init, stepping_clock 4 0 61000000000))
     = (AlertSystem_init\<lparr>last_alerts := [''process_7'' \<mapsto> 0, ''process_8'' \<mapsto> 0]\<rparr>,
        (stepping_clock 4 0 61000000000)\<lparr>reads := 4\<rparr>) \<and>
   fst (checkAlerts 1000000 no_digits (SystemStats_init 0)
          [busy_process 7 ''a'' 90, busy_process 8 ''b'' 60]
          (AlertSystem_init\<lparr>last_alerts := [''process_7'' \<mapsto> 0, ''process_8'' \<mapsto> 0]\<rparr>,
           (stepping_clock 4 0 61000000000)\<lparr>reads := 4\<rparr>))
     = [\<lparr>message = ''Process a (PID 7) using % CPU'', Alert.timestamp = 61000000000,
         type = PROCESS\<rparr>,
        \<lparr>message = ''Process b (PID 8) using % CPU'', Alert.timestamp = 61000000000,
         type = PROCESS\<rparr>]"
  using process_alerts_fire_per_pid
          [of "[busy_process 7 ''a'' 90, busy_process 8 ''b'' 60]" "busy_process 8 ''b'' 60"
              1000000
              "AlertSystem_init\<lparr>last_alerts := [''process_7'' \<mapsto> 0, ''process_8'' \<mapsto> 0]\<rparr>"
              "(stepping_clock 4 0 61000000000)\<lparr>reads := 4\<rparr>" no_digits "SystemStats_init 0"]
  by (simp add: alert_eval)

text \<open>
  C7 as stated fails. Process 7 is at 90 percent, but its key fired at time 0 and the
  clock shows 1 second, inside the cooldown of 60 seconds: the call fires no alert.
\<close>

theorem process_in_cooldown_counterexample:
  "ProcessInfo.cpu_percent (busy_process 7 ''a'' 90) > 50 \<and>
   fst (checkAlerts 1000000 no_digits (SystemStats_init 0) [busy_process 7 ''a'' 90]
          (AlertSystem_init\<lparr>last_alerts := [''process_7'' \<mapsto> 0]\<rparr>, frozen_clock 1000000000))
     = []"
  by (simp add: alert_eval)

section \<open>Properties of the library's sort\<close>

text \<open>Every step of the sort rearranges the array.\<close>

lemma mset_iter_swap [simp]: "mset (iter_swap xs i j) = mset xs"
  by (simp add: iter_swap_def mset_swap)

lemma length_iter_swap [simp]: "length (iter_swap xs i j) = length xs"
  by (simp add: iter_swap_def)

lemma mset_move_median_to_first [simp]:
  "mset (move_median_to_first cmp xs result a b c) = mset xs"
  by (simp add: move_median_to_first_def)

lemma mset_unguarded_partition [simp]:
  "mset (snd (unguarded_partition cmp xs first lst pivot)) = mset xs"
proof (induction cmp xs first lst pivot rule: unguarded_partition.induct)
  case (1 cmp xs first lst pivot)
  show ?case
  proof (cases "scan_up cmp xs pivot first < scan_down cmp xs pivot (lst - 1)")
    case True
    with 1 show ?thesis
      by (subst unguarded_partition.simps) (simp add: Let_def)
  next
    case False
    then show ?thesis
      by (subst unguarded_partition.simps) (simp add: Let_def)
  qed
qed

lemma mset_unguarded_partition_pivot [simp]:
  "mset (snd (unguarded_partition_pivot cmp xs first lst)) = mset xs"
  by (simp add: unguarded_partition_pivot_def Let_def)

lemma mset_sift_hole [simp]: "mset (fst (sift_hole cmp xs hole len)) = mset xs"
proof (induction cmp xs hole len rule: sift_hole.induct)
  case (1 cmp xs hole len)
  show ?case
  proof (cases "hole < (len - 1) div 2")
    case True
    with 1 show ?thesis
      by (subst sift_hole.simps) (simp add: Let_def)
  next
    case False
    then show ?thesis
      by (subst sift_hole.simps) simp
  qed
qed

lemma mset_push_heap [simp]: "mset (push_heap cmp xs hole top_index) = mset xs"
proof (induction cmp xs hole top_index rule: push_heap.induct)
  case (1 cmp xs hole top_index)
  show ?case
  proof (cases "hole > top_index \<and> cmp (xs ! ((hole - 1) div 2)) (xs ! hole)")
    case True
    with 1 show ?thesis
      by (subst push_heap.simps) simp
  next
    case False
    then show ?thesis
      by (subst push_heap.simps) auto
  qed
qed

lemma mset_adjust_heap [simp]: "mset (adjust_heap cmp xs hole len) = mset xs"
proof -
  obtain xs1 h1 where s: "sift_hole cmp xs hole len = (xs1, h1)" by (cases "sift_hole cmp xs hole len")
  then have "mset xs1 = mset xs" using mset_sift_hole [of cmp xs hole len] by simp
  with s show ?thesis by (simp add: adjust_heap_def)
qed

lemma mset_make_heap_from [simp]: "mset (make_heap_from cmp xs parent) = mset xs"
  by (induction parent arbitrary: xs) simp_all

lemma mset_make_heap [simp]: "mset (make_heap cmp xs) = mset xs"
  by (simp add: make_heap_def)

lemma mset_sort_heap [simp]: "mset (sort_heap cmp xs lst) = mset xs"
  by (induction lst arbitrary: xs) simp_all

lemma mset_partial_sort_all:
  assumes "first \<le> lst"
  shows "mset (partial_sort_all cmp xs first lst) = mset xs"
proof -
  have "drop lst xs = drop (lst - first) (drop first xs)" using assms by simp
  then have "take (lst - first) (drop first xs) @ drop lst xs = drop first xs"
    by (simp only: append_take_drop_id)
  then have "mset (take (lst - first) (drop first xs)) + mset (drop lst xs) = mset (drop first xs)"
    by (metis mset_append)
  moreover have "mset (take first xs) + mset (drop first xs) = mset xs"
    by (metis append_take_drop_id mset_append)
  ultimately show ?thesis
    by (simp add: partial_sort_all_def Let_def add.assoc)
qed

lemma mset_introsort_loop [simp]: "mset (introsort_loop cmp xs first lst depth_limit) = mset xs"
proof (induction depth_limit arbitrary: xs first lst)
  case 0
  show ?case by (simp add: mset_partial_sort_all)
next
  case (Suc depth_limit)
  show ?case
  proof (cases "lst - first > 16")
    case True
    obtain cut_at xs1 where p: "unguarded_partition_pivot cmp xs first lst = (cut_at, xs1)"
      by (cases "unguarded_partition_pivot cmp xs first lst")
    then have "mset xs1 = mset xs"
      using mset_unguarded_partition_pivot [of cmp xs first lst] by simp
    with True p show ?thesis by (simp add: Suc.IH)
  next
    case False
    then show ?thesis by simp
  qed
qed

lemma mset_unguarded_linear_insert [simp]:
  "mset (unguarded_linear_insert cmp val prefix) = add_mset val (mset prefix)"
proof -
  have "mset (takeWhile (cmp val) (rev prefix)) + mset (dropWhile (cmp val) (rev prefix))
          = mset (rev prefix)"
    by (metis mset_append takeWhile_dropWhile_id)
  then show ?thesis
    by (simp add: unguarded_linear_insert_def add.commute)
qed

lemma mset_insertion_foldl:
  "mset (foldl (\<lambda>prefix val. if prefix \<noteq> [] \<and> cmp val (hd prefix) then val # prefix
                               else unguarded_linear_insert cmp val prefix) acc xs)
     = mset acc + mset xs"
  by (induction xs arbitrary: acc) simp_all

lemma mset_insertion_sort [simp]: "mset (insertion_sort cmp xs) = mset xs"
  by (simp add: insertion_sort_def mset_insertion_foldl)

lemma mset_unguarded_insertion_sort [simp]:
  "mset (unguarded_insertion_sort cmp prefix xs) = mset prefix + mset xs"
  unfolding unguarded_insertion_sort_def
  by (induction xs arbitrary: prefix) simp_all

lemma mset_final_insertion_sort [simp]: "mset (final_insertion_sort cmp xs) = mset xs"
proof -
  have "mset (take 16 xs) + mset (drop 16 xs) = mset xs"
    by (metis append_take_drop_id mset_append)
  then show ?thesis by (simp add: final_insertion_sort_def)
qed

lemma mset_std_sort: "mset (std_sort cmp xs) = mset xs"
  by (simp add: std_sort_def)

text \<open>The insertion pass leaves a sorted array, whatever the loop before it has done.\<close>

lemma swo_asym: "strict_weak_ordering cmp \<Longrightarrow> cmp a b \<Longrightarrow> \<not> cmp b a"
  unfolding strict_weak_ordering_def by blast

lemma swo_trans: "strict_weak_ordering cmp \<Longrightarrow> cmp a b \<Longrightarrow> cmp b c \<Longrightarrow> cmp a c"
  unfolding strict_weak_ordering_def by blast

lemma swo_neg_trans:
  "strict_weak_ordering cmp \<Longrightarrow> \<not> cmp a b \<Longrightarrow> \<not> cmp b c \<Longrightarrow> \<not> cmp a c"
  unfolding strict_weak_ordering_def by blast

lemma linear_insert_split:
  "prefix = rev (dropWhile (cmp val) (rev prefix)) @ rev (takeWhile (cmp val) (rev prefix))"
proof -
  have "rev prefix = takeWhile (cmp val) (rev prefix) @ dropWhile (cmp val) (rev prefix)"
    by simp
  then have "rev (rev prefix)
               = rev (takeWhile (cmp val) (rev prefix) @ dropWhile (cmp val) (rev prefix))"
    by (rule arg_cong)
  then show ?thesis by (simp only: rev_rev_ident rev_append)
qed

lemma not_before_kept:
  assumes swo: "strict_weak_ordering cmp"
    and sorted: "sorted_wrt (\<lambda>a b. \<not> cmp b a) (rev ds)"
    and ds: "ds = dropWhile (cmp val) r"
    and a: "a \<in> set ds"
  shows "\<not> cmp val a"
proof (cases ds)
  case Nil
  with a show ?thesis by simp
next
  case (Cons x ds')
  have "dropWhile (cmp val) r \<noteq> []" using ds Cons by (metis list.distinct(1))
  from hd_dropWhile [OF this] have nx: "\<not> cmp val x"
    using ds Cons by (metis list.sel(1))
  show ?thesis
  proof (cases "a = x")
    case True
    with nx show ?thesis by simp
  next
    case False
    with a Cons have "a \<in> set ds'" by simp
    moreover from sorted Cons have "sorted_wrt (\<lambda>a b. \<not> cmp b a) (rev ds' @ [x])" by simp
    ultimately have "\<not> cmp x a" by (auto simp add: sorted_wrt_append)
    with nx show ?thesis using swo_neg_trans [OF swo] by blast
  qed
qed

lemma sorted_unguarded_linear_insert:
  assumes swo: "strict_weak_ordering cmp"
    and sorted: "sorted_wrt (\<lambda>a b. \<not> cmp b a) prefix"
  shows "sorted_wrt (\<lambda>a b. \<not> cmp b a) (unguarded_linear_insert cmp val prefix)"
proof -
  let ?D = "dropWhile (cmp val) (rev prefix)"
  let ?T = "takeWhile (cmp val) (rev prefix)"
  have s: "sorted_wrt (\<lambda>a b. \<not> cmp b a) (rev ?D @ rev ?T)"
    using sorted by (simp only: linear_insert_split [of prefix cmp val, symmetric])
  then have sd: "sorted_wrt (\<lambda>a b. \<not> cmp b a) (rev ?D)"
    and st: "sorted_wrt (\<lambda>a b. \<not> cmp b a) (rev ?T)"
    and cross: "\<forall>a \<in> set ?D. \<forall>b \<in> set ?T. \<not> cmp b a"
    by (auto simp add: sorted_wrt_append)
  have d: "\<forall>a \<in> set ?D. \<not> cmp val a"
    using not_before_kept [OF swo sd refl] by blast
  have t: "\<forall>b \<in> set ?T. \<not> cmp b val"
  proof
    fix b assume "b \<in> set ?T"
    then have "cmp val b" by (rule set_takeWhileD [THEN conjunct2])
    then show "\<not> cmp b val" by (rule swo_asym [OF swo])
  qed
  have tail: "sorted_wrt (\<lambda>a b. \<not> cmp b a) (val # rev ?T)"
    using st t by simp
  have "\<forall>a \<in> set (rev ?D). \<forall>b \<in> set (val # rev ?T). \<not> cmp b a"
  proof (intro ballI)
    fix a b
    assume "a \<in> set (rev ?D)" and "b \<in> set (val # rev ?T)"
    then have a: "a \<in> set ?D" and b: "b = val \<or> b \<in> set ?T"
      by (simp_all only: set_rev set_ConsD list.set insert_iff)
    from b show "\<not> cmp b a"
    proof
      assume "b = val"
      with d a show ?thesis by blast
    next
      assume "b \<in> set ?T"
      with cross a show ?thesis by blast
    qed
  qed
  with sd tail have "sorted_wrt (\<lambda>a b. \<not> cmp b a) (rev ?D @ val # rev ?T)"
    by (simp only: sorted_wrt_append simp_thms)
  then show ?thesis
    by (simp add: unguarded_linear_insert_def)
qed

lemma sorted_front_insert:
  assumes swo: "strict_weak_ordering cmp"
    and sorted: "sorted_wrt (\<lambda>a b. \<not> cmp b a) prefix"
    and ne: "prefix \<noteq> []" and c: "cmp val (hd prefix)"
  shows "sorted_wrt (\<lambda>a b. \<not> cmp b a) (val # prefix)"
proof -
  obtain h rest where p: "prefix = h # rest" using ne by (cases prefix) auto
  have "\<not> cmp e val" if "e \<in> set prefix" for e
  proof
    assume ev: "cmp e val"
    with c p have eh: "cmp e h" using swo_trans [OF swo] by auto
    show False
    proof (cases "e = h")
      case True
      with eh swo show ?thesis unfolding strict_weak_ordering_def by blast
    next
      case False
      with that p have "e \<in> set rest" by simp
      with sorted p have "\<not> cmp e h" by auto
      with eh show ?thesis by simp
    qed
  qed
  with sorted show ?thesis by simp
qed

lemma sorted_insertion_foldl:
  assumes swo: "strict_weak_ordering cmp"
  shows "sorted_wrt (\<lambda>a b. \<not> cmp b a) acc \<Longrightarrow>
         sorted_wrt (\<lambda>a b. \<not> cmp b a)
           (foldl (\<lambda>prefix val. if prefix \<noteq> [] \<and> cmp val (hd prefix) then val # prefix
                                 else unguarded_linear_insert cmp val prefix) acc xs)"
proof (induction xs arbitrary: acc)
  case Nil
  then show ?case by simp
next
  case (Cons x xs)
  have "sorted_wrt (\<lambda>a b. \<not> cmp b a)
          (if acc \<noteq> [] \<and> cmp x (hd acc) then x # acc else unguarded_linear_insert cmp x acc)"
  proof (cases "acc \<noteq> [] \<and> cmp x (hd acc)")
    case True
    then have "sorted_wrt (\<lambda>a b. \<not> cmp b a) (x # acc)"
      using sorted_front_insert [OF swo Cons.prems] by blast
    then show ?thesis unfolding if_P [OF True] .
  next
    case False
    have "sorted_wrt (\<lambda>a b. \<not> cmp b a) (unguarded_linear_insert cmp x acc)"
      by (rule sorted_unguarded_linear_insert [OF swo Cons.prems])
    then show ?thesis unfolding if_not_P [OF False] .
  qed
  from Cons.IH [OF this] show ?case by simp
qed

lemma sorted_insertion_sort:
  "strict_weak_ordering cmp \<Longrightarrow> sorted_wrt (\<lambda>a b. \<not> cmp b a) (insertion_sort cmp xs)"
  unfolding insertion_sort_def by (rule sorted_insertion_foldl) simp_all

lemma sorted_unguarded_insertion_sort:
  assumes swo: "strict_weak_ordering cmp"
  shows "sorted_wrt (\<lambda>a b. \<not> cmp b a) prefix \<Longrightarrow>
         sorted_wrt (\<lambda>a b. \<not> cmp b a) (unguarded_insertion_sort cmp prefix xs)"
  unfolding unguarded_insertion_sort_def
proof (induction xs arbitrary: prefix)
  case Nil
  then show ?case by simp
next
  case (Cons x xs)
  from Cons.IH [OF sorted_unguarded_linear_insert [OF swo Cons.prems, of x]]
  show ?case by simp
qed

lemma sorted_final_insertion_sort:
  "strict_weak_ordering cmp \<Longrightarrow> sorted_wrt (\<lambda>a b. \<not> cmp b a) (final_insertion_sort cmp xs)"
  by (simp add: final_insertion_sort_def sorted_insertion_sort sorted_unguarded_insertion_sort)

lemma sorted_std_sort:
  "strict_weak_ordering cmp \<Longrightarrow> sorted_wrt (\<lambda>a b. \<not> cmp b a) (std_sort cmp xs)"
  by (simp add: std_sort_def sorted_final_insertion_sort)

lemma swo_by_cpu_desc: "strict_weak_ordering by_cpu_desc"
  by (auto simp add: strict_weak_ordering_def by_cpu_desc_def)

lemma cpu_descending_std_sort: "cpu_descending (std_sort by_cpu_desc ps)"
proof -
  have "(\<lambda>a b. \<not> by_cpu_desc b a)
          = (\<lambda>a b. ProcessInfo.cpu_percent a \<ge> ProcessInfo.cpu_percent b)"
    by (auto simp add: by_cpu_desc_def fun_eq_iff)
  with sorted_std_sort [OF swo_by_cpu_desc, of ps] show ?thesis
    by (simp add: cpu_descending_def)
qed

text \<open>
  On at most 16 elements the loop does nothing and the insertion pass is all there is;
  it keeps processes of equal \<open>cpu_percent\<close> in their order.
\<close>

lemma std_sort_short: "length xs \<le> 16 \<Longrightarrow> std_sort cmp xs = insertion_sort cmp xs"
proof -
  assume le: "length xs \<le> 16"
  have "introsort_loop cmp xs 0 (length xs) d = xs" for d
    using le by (cases d) simp_all
  with le show ?thesis
    by (cases "xs = []") (simp_all add: std_sort_def final_insertion_sort_def insertion_sort_def)
qed

lemma filter_linear_insert:
  "filter (\<lambda>q. ProcessInfo.cpu_percent q = c) (unguarded_linear_insert by_cpu_desc val prefix)
     = filter (\<lambda>q. ProcessInfo.cpu_percent q = c) prefix
       @ filter (\<lambda>q. ProcessInfo.cpu_percent q = c) [val]"
proof -
  let ?P = "\<lambda>q. ProcessInfo.cpu_percent q = c"
  let ?D = "dropWhile (by_cpu_desc val) (rev prefix)"
  let ?T = "takeWhile (by_cpu_desc val) (rev prefix)"
  have split: "filter ?P prefix = filter ?P (rev ?D) @ filter ?P (rev ?T)"
    using arg_cong [OF linear_insert_split [of prefix by_cpu_desc val], of "filter ?P"]
    by (simp only: filter_append)
  have ins: "filter ?P (unguarded_linear_insert by_cpu_desc val prefix)
               = filter ?P (rev ?D) @ filter ?P [val] @ filter ?P (rev ?T)"
    by (simp only: unguarded_linear_insert_def filter_append)
  show ?thesis
  proof (cases "ProcessInfo.cpu_percent val = c")
    case True
    have "\<forall>b \<in> set (rev ?T). \<not> ?P b"
    proof
      fix b assume "b \<in> set (rev ?T)"
      then have "b \<in> set ?T" by (simp only: set_rev)
      then have "by_cpu_desc val b" by (rule set_takeWhileD [THEN conjunct2])
      with True show "\<not> ?P b" by (simp add: by_cpu_desc_def)
    qed
    then have "filter ?P (rev ?T) = []" by (simp only: filter_empty_conv)
    with split ins show ?thesis by simp
  next
    case False
    then have "filter ?P [val] = []" by simp
    with split ins show ?thesis by simp
  qed
qed

lemma filter_front_insert:
  assumes sorted: "cpu_descending prefix" and ne: "prefix \<noteq> []"
    and c: "by_cpu_desc val (hd prefix)"
  shows "filter (\<lambda>q. ProcessInfo.cpu_percent q = c) (val # prefix)
           = filter (\<lambda>q. ProcessInfo.cpu_percent q = c) prefix
             @ filter (\<lambda>q. ProcessInfo.cpu_percent q = c) [val]"
proof (cases "ProcessInfo.cpu_percent val = c")
  case True
  obtain h rest where p: "prefix = h # rest" using ne by (cases prefix) auto
  have "ProcessInfo.cpu_percent e < c" if "e \<in> set prefix" for e
  proof -
    have "ProcessInfo.cpu_percent e \<le> ProcessInfo.cpu_percent h"
      using that sorted p by (auto simp add: cpu_descending_def)
    moreover have "ProcessInfo.cpu_percent h < c"
      using c p True by (simp add: by_cpu_desc_def)
    ultimately show ?thesis by simp
  qed
  then have "filter (\<lambda>q. ProcessInfo.cpu_percent q = c) prefix = []"
    by (auto simp add: filter_empty_conv)
  with True show ?thesis by simp
next
  case False
  then show ?thesis by simp
qed

lemma cpu_descending_iff:
  "cpu_descending ps = sorted_wrt (\<lambda>a b. \<not> by_cpu_desc b a) ps"
proof -
  have "(\<lambda>a b. \<not> by_cpu_desc b a)
          = (\<lambda>a b. ProcessInfo.cpu_percent a \<ge> ProcessInfo.cpu_percent b)"
    by (auto simp add: by_cpu_desc_def fun_eq_iff)
  then show ?thesis by (simp add: cpu_descending_def)
qed

lemma filter_insertion_foldl:
  "cpu_descending acc \<Longrightarrow>
   filter (\<lambda>q. ProcessInfo.cpu_percent q = c)
     (foldl (\<lambda>prefix val. if prefix \<noteq> [] \<and> by_cpu_desc val (hd prefix) then val # prefix
                           else unguarded_linear_insert by_cpu_desc val prefix) acc xs)
     = filter (\<lambda>q. ProcessInfo.cpu_percent q = c) acc
       @ filter (\<lambda>q. ProcessInfo.cpu_percent q = c) xs"
proof (induction xs arbitrary: acc)
  case Nil
  show ?case by simp
next
  case (Cons x xs)
  let ?next = "if acc \<noteq> [] \<and> by_cpu_desc x (hd acc) then x # acc
               else unguarded_linear_insert by_cpu_desc x acc"
  have sorted: "sorted_wrt (\<lambda>a b. \<not> by_cpu_desc b a) acc"
    using Cons.prems by (simp only: cpu_descending_iff)
  have s: "cpu_descending ?next"
  proof (cases "acc \<noteq> [] \<and> by_cpu_desc x (hd acc)")
    case True
    then have "sorted_wrt (\<lambda>a b. \<not> by_cpu_desc b a) (x # acc)"
      using sorted_front_insert [OF swo_by_cpu_desc sorted] by blast
    then show ?thesis unfolding if_P [OF True] cpu_descending_iff .
  next
    case False
    have "sorted_wrt (\<lambda>a b. \<not> by_cpu_desc b a) (unguarded_linear_insert by_cpu_desc x acc)"
      by (rule sorted_unguarded_linear_insert [OF swo_by_cpu_desc sorted])
    then show ?thesis unfolding if_not_P [OF False] cpu_descending_iff .
  qed
  have f: "filter (\<lambda>q. ProcessInfo.cpu_percent q = c) ?next
             = filter (\<lambda>q. ProcessInfo.cpu_percent q = c) acc
               @ filter (\<lambda>q. ProcessInfo.cpu_percent q = c) [x]"
  proof (cases "acc \<noteq> [] \<and> by_cpu_desc x (hd acc)")
    case True
    then show ?thesis
      unfolding if_P [OF True] using filter_front_insert [OF Cons.prems] by blast
  next
    case False
    show ?thesis
      unfolding if_not_P [OF False] by (rule filter_linear_insert)
  qed
  have "filter (\<lambda>q. ProcessInfo.cpu_percent q = c) [x]
          @ filter (\<lambda>q. ProcessInfo.cpu_percent q = c) xs
        = filter (\<lambda>q. ProcessInfo.cpu_percent q = c) (x # xs)"
    by simp
  with Cons.IH [OF s] f show ?case
    by (simp only: foldl_Cons append_assoc)
qed

lemma keeps_tie_order_short:
  assumes "length ps \<le> 16"
  shows "keeps_tie_order ps (std_sort by_cpu_desc ps)"
proof -
  have "filter (\<lambda>q. ProcessInfo.cpu_percent q = c) (insertion_sort by_cpu_desc ps)
          = filter (\<lambda>q. ProcessInfo.cpu_percent q = c) ps" for c
    unfolding insertion_sort_def
    using filter_insertion_foldl [of "[]" c ps] by (simp add: cpu_descending_def)
  then show ?thesis
    by (simp add: keeps_tie_order_def std_sort_short [OF assms] list_all_iff)
qed

section \<open>The collection tick\<close>

lemma set_memory_percent_keeps:
  "\<exists>ps'. set_memory_percent tm ps = Inr ps' \<and> map pid ps' = map pid ps \<and>
      map ProcessInfo.cpu_percent ps' = map ProcessInfo.cpu_percent ps \<and>
      map name ps' = map name ps"
  using set_memory_percent_total [of tm ps] by (auto simp add: comp_def)

text \<open>
  C8 (as amended). A tick hands one and the same list to the alert evaluation and to the
  data callback: a rearrangement of the probe's process list (pids and CPU shares
  untouched by the memory loop) in non-increasing order of \<open>cpu_percent\<close>. Processes of
  equal \<open>cpu_percent\<close> keep their input order when the list has at most 16 processes.
  Nothing is said about their order in longer lists.
\<close>

theorem tick_publishes_sorted_list:
  "\<exists>stats ic processes0 processes d' clk'.
     getSystemStats tpm rd (info_collector d) = Inr (stats, ic) \<and>
     set_memory_percent (memory_total_bytes stats) procs = Inr processes0 \<and>
     map pid processes0 = map pid procs \<and>
     map ProcessInfo.cpu_percent processes0 = map ProcessInfo.cpu_percent procs \<and>
     mset processes = mset processes0 \<and>
     cpu_descending processes \<and>
     (length procs \<le> 16 \<longrightarrow> keeps_tie_order processes0 processes) \<and>
     collection_tick tpm dstr rd procs (d, clk) = Inr (d', clk') \<and>
     (alert_system d', clk') = snd (checkAlerts tpm dstr stats processes (alert_system d, clk)) \<and>
     data_log d' = (if data_callback d then data_log d @ [(stats, processes)] else data_log d)"
proof -
  obtain stats ic where g: "getSystemStats tpm rd (info_collector d) = Inr (stats, ic)"
    using getSystemStats_memory_percent [of tpm rd "info_collector d"] by blast
  obtain processes0 where
    m: "set_memory_percent (memory_total_bytes stats) procs = Inr processes0"
    and k: "map pid processes0 = map pid procs"
       "map ProcessInfo.cpu_percent processes0 = map ProcessInfo.cpu_percent procs"
    using set_memory_percent_keeps [of "memory_total_bytes stats" procs] by blast
  let ?processes = "std_sort by_cpu_desc processes0"
  have p: "mset ?processes = mset processes0" by (rule mset_std_sort)
  have s: "cpu_descending ?processes" by (rule cpu_descending_std_sort)
  have "length processes0 = length procs" using k(1) by (rule map_eq_imp_length_eq)
  then have t: "length procs \<le> 16 \<longrightarrow> keeps_tie_order processes0 ?processes"
    by (simp add: keeps_tie_order_short)
  obtain alerts a clk' where
    c: "checkAlerts tpm dstr stats ?processes (alert_system d, clk) = (alerts, a, clk')"
    by (metis prod_cases3)
  let ?d1 = "store_data stats (d\<lparr>info_collector := ic\<rparr>)"
  have a1: "alert_system ?d1 = alert_system d" "data_callback ?d1 = data_callback d"
    "data_log ?d1 = data_log d"
    by (simp_all add: store_data_def Let_def)
  let ?d' = "?d1\<lparr>alert_system := a,
                   data_log := (if data_callback d then data_log d @ [(stats, ?processes)]
                                else data_log d)\<rparr>"
  have tick: "collection_tick tpm dstr rd procs (d, clk) = Inr (?d', clk')"
    using g m c a1 by (simp add: collection_tick_def Let_def)
  have "(alert_system ?d', clk')
          = snd (checkAlerts tpm dstr stats ?processes (alert_system d, clk))"
    using c by simp
  moreover have "data_log ?d' = (if data_callback d
                                 then data_log d @ [(stats, ?processes)]
                                 else data_log d)"
    by simp
  ultimately show ?thesis using g m k p s t tick by blast
qed

lemma std_sort_two:
  "std_sort by_cpu_desc [busy_process 7 ''a'' 10, busy_process 8 ''b'' 20]
     = [busy_process 8 ''b'' 20, busy_process 7 ''a'' 10]"
  by code_simp

lemma std_sort_seventeen:
  "std_sort by_cpu_desc (idle_processes 17)
     = processes_with_pids [9, 17, 16, 15, 14, 13, 12, 11, 10, 1, 8, 7, 6, 5, 4, 3, 2]"
  by code_simp

lemma set_memory_percent_zero: "set_memory_percent 0 ps = Inr ps"
  by (induction ps) simp_all

lemmas tick_eval =
  collection_tick_def getSystemStats_def getIOStats_cases getCPUUsageLinux_cases
  store_data_def DataCollector_init_def idle_reading_def collector0_def
  set_memory_percent_zero

text \<open>
  The theorem at two processes of 10 and 20 percent: the callback receives them as 20, 10.
\<close>

theorem tick_publishes_sorted_list_witness:
  "\<exists>d'. collection_tick 1000000 no_digits idle_reading
            [busy_process 7 ''a'' 10, busy_process 8 ''b'' 20]
            ((DataCollector_init 3)\<lparr>data_callback := True\<rparr>, frozen_clock 0)
          = Inr (d', frozen_clock 0) \<and>
        data_log d' = [(SystemStats_init 0, [busy_process 8 ''b'' 20, busy_process 7 ''a'' 10])]"
  using tick_publishes_sorted_list
          [of 1000000 idle_reading "(DataCollector_init 3)\<lparr>data_callback := True\<rparr>"
              "[busy_process 7 ''a'' 10, busy_process 8 ''b'' 20]" no_digits "frozen_clock 0"]
  by (simp add: tick_eval std_sort_two Let_def) (simp add: alert_eval)

lemma idle_processes_seventeen:
  "idle_processes 17
     = processes_with_pids [1, 2, 3, 4, 5, 6, 7, 8, 9, 10, 11, 12, 13, 14, 15, 16, 17]"
  by code_simp

lemma tie_order_seventeen:
  "\<not> keeps_tie_order (idle_processes 17)
       (processes_with_pids [9, 17, 16, 15, 14, 13, 12, 11, 10, 1, 8, 7, 6, 5, 4, 3, 2])"
  by code_simp

lemma check_processes_idle:
  "check_processes tpm dstr (processes_with_pids pids) alerts (a, clk) = (alerts, a, clk)"
  by (induction pids) (simp_all add: processes_with_pids_def ProcessInfo_init_def check_key_def)

text \<open>
  C8 as stated fails. The probe delivers 17 processes, pids 1 to 17 in this order, all
  with \<open>cpu_percent\<close> 0. The sort moves the middle element to the front as pivot and
  the partition then swaps the equal elements pairwise from both ends, so the tick hands
  the pids to the data callback in the order 9, 17, 16, ..., 10, 1, 8, 7, ..., 2: the
  input order of the tie is not kept.
\<close>

theorem equal_cpu_order_counterexample:
  "map pid (idle_processes 17) = [1, 2, 3, 4, 5, 6, 7, 8, 9, 10, 11, 12, 13, 14, 15, 16, 17] \<and>
   map ProcessInfo.cpu_percent (idle_processes 17)
     = [0, 0, 0, 0, 0, 0, 0, 0, 0, 0, 0, 0, 0, 0, 0, 0, 0] \<and>
   collection_tick 1000000 no_digits idle_reading (idle_processes 17)
     ((DataCollector_init 3)\<lparr>data_callback := True\<rparr>, frozen_clock 0)
   = Inr ((DataCollector_init 3)
            \<lparr>data_callback := True,
             info_collector := collector0\<lparr>first_io_read := False\<rparr>,
             system_history := [SystemStats_init 0],
             data_log :=
               [(SystemStats_init 0,
                 processes_with_pids
                   [9, 17, 16, 15, 14, 13, 12, 11, 10, 1, 8, 7, 6, 5, 4, 3, 2])]\<rparr>,
          frozen_clock 0) \<and>
   \<not> keeps_tie_order (idle_processes 17)
         (processes_with_pids [9, 17, 16, 15, 14, 13, 12, 11, 10, 1, 8, 7, 6, 5, 4, 3, 2])"
proof (intro conjI)
  show "map pid (idle_processes 17)
          = [1, 2, 3, 4, 5, 6, 7, 8, 9, 10, 11, 12, 13, 14, 15, 16, 17]"
    by (simp add: idle_processes_seventeen processes_with_pids_def ProcessInfo_init_def)
  show "map ProcessInfo.cpu_percent (idle_processes 17)
     = [0, 0, 0, 0, 0, 0, 0, 0, 0, 0, 0, 0, 0, 0, 0, 0, 0]"
    by (simp add: idle_processes_seventeen processes_with_pids_def ProcessInfo_init_def)
  show "\<not> keeps_tie_order (idle_processes 17)
         (processes_with_pids [9, 17, 16, 15, 14, 13, 12, 11, 10, 1, 8, 7, 6, 5, 4, 3, 2])"
    by (rule tie_order_seventeen)
  show "collection_tick 1000000 no_digits idle_reading (idle_processes 17)
     ((DataCollector_init 3)\<lparr>data_callback := True\<rparr>, frozen_clock 0)
   = Inr ((DataCollector_init 3)
            \<lparr>data_callback := True,
             info_collector := collector0\<lparr>first_io_read := False\<rparr>,
             system_history := [SystemStats_init 0],
             data_log :=
               [(SystemStats_init 0,
                 processes_with_pids
                   [9, 17, 16, 15, 14, 13, 12, 11, 10, 1, 8, 7, 6, 5, 4, 3, 2])]\<rparr>,
          frozen_clock 0)"
    by (simp add: tick_eval std_sort_seventeen Let_def checkAlerts_def check_key_def
          check_processes_idle SystemStats_init_def AlertSystem_init_def default_thresholds_def)
qed

end
